theory Spec2Isabelle
  imports Main
begin

section \<open>Values\<close>

text \<open>
  The scripts handle two kinds of values. Documents in the store are BSON values: besides
  the JSON shapes they hold object identifiers (\<open>ObjectId\<close>, written by its 24 hexadecimal
  digits) and dates (written by their ISO text). The journal file is JSON text: what
  \<open>JSON.parse\<close> returns holds neither identifiers nor dates, and the keys of an object
  it returns are distinct. A number is given by the text that JavaScript prints for it
  (\<open>String(n)\<close>: digits, or the exponent form from \<open>1e21\<close> on), which is all that the
  scripts do with a number; zero, of either sign, prints as \<open>0\<close>.
\<close>

type_synonym number = string

datatype json = JNull | JBool bool | JNum number | JStr string
  | JArr "json list" | JObj "(string \<times> json) list"

datatype bson = BNull | BBool bool | BNum number | BStr string
  | BOid string | BDate string
  | BArr "bson list" | BObj "(string \<times> bson) list"

type_synonym doc = "(string \<times> bson) list"

text \<open>
  \<open>toJSON v\<close> is \<open>JSON.parse(JSON.stringify(v))\<close>: an \<open>ObjectId\<close> is written as its
  hexadecimal string and a date as its ISO string (their \<open>toJSON\<close> methods).
\<close>

primrec toJSON :: "bson \<Rightarrow> json" where
  "toJSON BNull = JNull"
| "toJSON (BBool b) = JBool b"
| "toJSON (BNum n) = JNum n"
| "toJSON (BStr s) = JStr s"
| "toJSON (BOid h) = JStr h"
| "toJSON (BDate s) = JStr s"
| "toJSON (BArr vs) = JArr (map toJSON vs)"
| "toJSON (BObj kvs) = JObj (map (map_prod id toJSON) kvs)"

text \<open>A parsed JSON value handed to the driver is sent as the BSON value of the same shape.\<close>

primrec of_json :: "json \<Rightarrow> bson" where
  "of_json JNull = BNull"
| "of_json (JBool b) = BBool b"
| "of_json (JNum n) = BNum n"
| "of_json (JStr s) = BStr s"
| "of_json (JArr vs) = BArr (map of_json vs)"
| "of_json (JObj kvs) = BObj (map (map_prod id of_json) kvs)"

definition doc_id :: "doc \<Rightarrow> bson option" where
  "doc_id d = map_of d ''_id''"

fun dec :: "nat \<Rightarrow> string" where
  "dec n = (if n < 10 then [char_of (48 + n)]
            else dec (n div 10) @ [char_of (48 + n mod 10)])"

definition pad :: "nat \<Rightarrow> nat \<Rightarrow> string" where
  "pad w n = replicate (w - length (dec n)) (CHR ''0'') @ dec n"

definition quoted :: "string \<Rightarrow> string" where
  "quoted s = CHR 0x27 # s @ [CHR 0x27]"

subsection \<open>JavaScript coercions on parsed JSON\<close>

text \<open>A property that is missing reads as \<open>undefined\<close>: \<open>None\<close> below.\<close>

fun truthy :: "json option \<Rightarrow> bool" where
  "truthy None = False"
| "truthy (Some JNull) = False"
| "truthy (Some (JBool b)) = b"
| "truthy (Some (JNum n)) = (n \<noteq> ''0'')"
| "truthy (Some (JStr s)) = (s \<noteq> [])"
| "truthy (Some (JArr vs)) = True"
| "truthy (Some (JObj kvs)) = True"

fun join_comma :: "string list \<Rightarrow> string" where
  "join_comma [] = []"
| "join_comma [s] = s"
| "join_comma (s # t # ss) = s @ '','' @ join_comma (t # ss)"

fun String_json :: "json \<Rightarrow> string" where
  "String_json JNull = ''null''"
| "String_json (JBool b) = (if b then ''true'' else ''false'')"
| "String_json (JNum n) = n"
| "String_json (JStr s) = s"
| "String_json (JArr vs) =
     join_comma (map (\<lambda>v. if v = JNull then [] else String_json v) vs)"
| "String_json (JObj kvs) = ''[object Object]''"

definition js_String :: "json option \<Rightarrow> string" where
  "js_String v = (case v of None \<Rightarrow> ''undefined'' | Some j \<Rightarrow> String_json j)"

section \<open>The run tag\<close>

text \<open>
  \<open>TAG = new Date().toISOString().replace(/[:.]/g, "_")\<close>. The invocation time is given by
  its UTC fields; \<open>toISOString\<close> prints \<open>YYYY-MM-DDTHH:mm:ss.sssZ\<close> (six digits and a sign
  for a year beyond 9999).
\<close>

record utc_time =
  year :: nat
  month :: nat
  day :: nat
  hour :: nat
  minute :: nat
  second :: nat
  millis :: nat

definition toISOString :: "utc_time \<Rightarrow> string" where
  "toISOString t =
     (if year t \<le> 9999 then pad 4 (year t) else ''+'' @ pad 6 (year t))
     @ ''-'' @ pad 2 (month t) @ ''-'' @ pad 2 (day t)
     @ ''T'' @ pad 2 (hour t) @ '':'' @ pad 2 (minute t) @ '':'' @ pad 2 (second t)
     @ ''.'' @ pad 3 (millis t) @ ''Z''"

definition TAG_of :: "string \<Rightarrow> string" where
  "TAG_of s = map (\<lambda>c. if c = CHR '':'' \<or> c = CHR ''.'' then CHR ''_'' else c) s"

text \<open>
  The legacy undo script reads the time back with
  \<open>new Date(TAG_UNDO.replace(/_/g, ":"))\<close>; \<open>decode_tag\<close> is the string handed to \<open>Date\<close>.
\<close>

definition decode_tag :: "string \<Rightarrow> string" where
  "decode_tag tag = map (\<lambda>c. if c = CHR ''_'' then CHR '':'' else c) tag"

section \<open>The document store\<close>

text \<open>
  The store is the MongoDB database behind the driver; it is outside the repository, so
  the operations the scripts call are given here by what the driver and the server
  document. A collection is the list of its documents in natural order. Whether a write
  is answered is outside the program: \<open>faults\<close> lists, for the coming writes, whether the
  store fails to answer (a write that finds the list empty is answered). The meaning of an
  update instruction is the server's and is left open: \<open>interp u d\<close> is the document that
  instruction \<open>u\<close> makes of \<open>d\<close>, or the server's error.
\<close>

record store =
  colls :: "string \<Rightarrow> doc list"
  faults :: "bool list"
  next_pk :: nat
  interp :: "bson \<Rightarrow> doc \<Rightarrow> string + doc"
  reachable :: bool

definition next_fault :: "store \<Rightarrow> bool \<times> store" where
  "next_fault s = (case faults s of [] \<Rightarrow> (False, s) | f # fs \<Rightarrow> (f, s\<lparr>faults := fs\<rparr>))"

definition unavailable :: string where
  "unavailable = ''MongoNetworkError: connection closed''"

definition immutable_id :: string where
  "immutable_id = ''MongoServerError: the (immutable) field _id was found to have been altered''"

text \<open>
  A query filter without operators: every listed field equals the given value, and
  \<open>null\<close> also matches a missing field.
\<close>

fun field_matches :: "doc \<Rightarrow> string \<times> bson \<Rightarrow> bool" where
  "field_matches d (k, BNull) = (map_of d k = None \<or> map_of d k = Some BNull)"
| "field_matches d (k, v) = (map_of d k = Some v)"

fun matches :: "bson \<Rightarrow> doc \<Rightarrow> bool" where
  "matches (BObj kvs) d = list_all (field_matches d) kvs"
| "matches v d = False"

text \<open>The filter \<open>{ _id: v }\<close>; the driver sends \<open>undefined\<close> as \<open>null\<close>.\<close>

definition id_filter :: "bson option \<Rightarrow> bson" where
  "id_filter v = BObj [(''_id'', case v of None \<Rightarrow> BNull | Some i \<Rightarrow> i)]"

fun replace_first :: "('a \<Rightarrow> bool) \<Rightarrow> 'a \<Rightarrow> 'a list \<Rightarrow> 'a list" where
  "replace_first p y [] = []"
| "replace_first p y (x # xs) = (if p x then y # xs else x # replace_first p y xs)"

fun remove_first :: "('a \<Rightarrow> bool) \<Rightarrow> 'a list \<Rightarrow> 'a list" where
  "remove_first p [] = []"
| "remove_first p (x # xs) = (if p x then xs else x # remove_first p xs)"

fun set_field :: "string \<Rightarrow> bson \<Rightarrow> doc \<Rightarrow> doc" where
  "set_field k v [] = [(k, v)]"
| "set_field k v (p # ps) = (if fst p = k then (k, v) # ps else p # set_field k v ps)"

definition hex_digit :: "nat \<Rightarrow> char" where
  "hex_digit n = ''0123456789abcdef'' ! (n mod 16)"

fun hex :: "nat \<Rightarrow> nat \<Rightarrow> string" where
  "hex 0 n = []"
| "hex (Suc k) n = hex k (n div 16) @ [hex_digit n]"

text \<open>\<open>find(filter).toArray()\<close>: the matching documents, in the collection's order.\<close>

definition find_toArray :: "string \<Rightarrow> (doc \<Rightarrow> bool) \<Rightarrow> store \<Rightarrow> doc list" where
  "find_toArray c p s = filter p (colls s c)"

text \<open>
  \<open>insertOne(doc)\<close>: the driver first gives a document without \<open>_id\<close> a generated
  identifier, in place (the caller's object has it afterwards), then sends it; the server
  refuses an identifier the collection already has. The result is the inserted identifier
  or the error raised, with the document as the driver left it.
\<close>

definition assign_pk :: "doc \<Rightarrow> store \<Rightarrow> doc \<times> store" where
  "assign_pk d s =
     (if doc_id d = None \<or> doc_id d = Some BNull
      then (set_field ''_id'' (BOid (hex 24 (next_pk s))) d, s\<lparr>next_pk := Suc (next_pk s)\<rparr>)
      else (d, s))"

definition insertOne :: "string \<Rightarrow> doc \<Rightarrow> store \<Rightarrow> (string + bson) \<times> doc \<times> store" where
  "insertOne c d s =
     (let (d', s0) = assign_pk d s; (f, s1) = next_fault s0 in
      if f then (Inl unavailable, d', s1)
      else if doc_id d' \<in> set (map doc_id (colls s1 c))
      then (Inl ''MongoServerError: E11000 duplicate key error'', d', s1)
      else (case doc_id d' of
              None \<Rightarrow> (Inl ''MongoServerError: E11000 duplicate key error'', d', s1)
            | Some i \<Rightarrow> (Inr i, d', s1\<lparr>colls := (colls s1)(c := colls s1 c @ [d'])\<rparr>)))"

text \<open>
  \<open>updateOne(filter, update)\<close> changes the first matching document as the instruction
  says; the server refuses a change of \<open>_id\<close>. The result is the number of documents
  matched, or the error raised.
\<close>

definition updateOne ::
  "string \<Rightarrow> (doc \<Rightarrow> bool) \<Rightarrow> bson \<Rightarrow> store \<Rightarrow> (string + nat) \<times> store" where
  "updateOne c p u s =
     (let (f, s1) = next_fault s in
      if f then (Inl unavailable, s1)
      else (case List.find p (colls s1 c) of
              None \<Rightarrow> (Inr 0, s1)
            | Some d \<Rightarrow>
                (case interp s1 u d of
                   Inl e \<Rightarrow> (Inl e, s1)
                 | Inr d' \<Rightarrow>
                     if doc_id d' \<noteq> doc_id d then (Inl immutable_id, s1)
                     else (Inr 1, s1\<lparr>colls := (colls s1)(c := replace_first p d' (colls s1 c))\<rparr>))))"

text \<open>\<open>deleteOne(filter)\<close> removes the first matching document; none matching is no error.\<close>

definition deleteOne :: "string \<Rightarrow> (doc \<Rightarrow> bool) \<Rightarrow> store \<Rightarrow> (string + nat) \<times> store" where
  "deleteOne c p s =
     (let (f, s1) = next_fault s in
      if f then (Inl unavailable, s1)
      else (Inr (if list_ex p (colls s1 c) then 1 else 0),
            s1\<lparr>colls := (colls s1)(c := remove_first p (colls s1 c))\<rparr>))"

text \<open>
  \<open>replaceOne(filter, replacement)\<close> without \<open>upsert\<close>. Before it sends anything the
  driver refuses a replacement in which it finds an update operator: it looks at the
  first key of a document only, and into every element of an array
  (\<open>hasAtomicOperators\<close>). Whatever passes is sent. For a document, the server refuses
  a key that starts with \<open>$\<close> at the top level; otherwise it replaces the whole content
  of the first matching document and keeps its \<open>_id\<close>: that field cannot be changed,
  and a replacement whose own \<open>_id\<close> is another value than the document's (a string is
  another value than an \<open>ObjectId\<close> with the same digits) is refused with an error. No
  matching document is no error and no change. An array is read by the server as an
  update pipeline: the empty one changes nothing, and no other array that passes the
  driver is a pipeline. Any other value is not an update at all.
\<close>

fun hasAtomicOperators :: "bson \<Rightarrow> bool" where
  "hasAtomicOperators (BArr vs) = list_ex hasAtomicOperators vs"
| "hasAtomicOperators (BObj []) = False"
| "hasAtomicOperators (BObj (kv # kvs)) = (take 1 (fst kv) = ''$'')"
| "hasAtomicOperators v = False"

definition dollar_key :: "doc \<Rightarrow> bool" where
  "dollar_key kvs = list_ex (\<lambda>kv. take 1 (fst kv) = ''$'') kvs"

definition replacement_of :: "doc \<Rightarrow> doc \<Rightarrow> doc" where
  "replacement_of d kvs =
     (case doc_id d of
        None \<Rightarrow> kvs
      | Some i \<Rightarrow> (''_id'', i) # filter (\<lambda>kv. fst kv \<noteq> ''_id'') kvs)"

definition replaceOne ::
  "string \<Rightarrow> (doc \<Rightarrow> bool) \<Rightarrow> bson \<Rightarrow> store \<Rightarrow> (string + nat) \<times> store" where
  "replaceOne c p r s =
     (if hasAtomicOperators r
      then (Inl ''MongoInvalidArgumentError: Replacement document must not contain atomic operators'', s)
      else
        (let (f, s1) = next_fault s in
         if f then (Inl unavailable, s1)
         else (case r of
                 BObj kvs \<Rightarrow>
                   if dollar_key kvs
                   then (Inl ''MongoServerError: a replacement may not have a top-level field name that starts with $'', s1)
                   else (case List.find p (colls s1 c) of
                           None \<Rightarrow> (Inr 0, s1)
                         | Some d \<Rightarrow>
                             if map_of kvs ''_id'' \<noteq> None \<and> map_of kvs ''_id'' \<noteq> doc_id d
                             then (Inl immutable_id, s1)
                             else (Inr 1, s1\<lparr>colls := (colls s1)(c :=
                                     replace_first p (replacement_of d kvs) (colls s1 c))\<rparr>))
               | BArr vs \<Rightarrow>
                   if vs = [] then (Inr (if list_ex p (colls s1 c) then 1 else 0), s1)
                   else (Inl ''MongoServerError: Unrecognized pipeline stage name'', s1)
               | _ \<Rightarrow> (Inl ''MongoServerError: the update is neither a document nor a pipeline'', s1))))"

section \<open>The journal and the migration script\<close>

text \<open>
  \<open>logAction\<close>, \<open>insertDocument\<close> and \<open>updateDocuments\<close> read the same in \<open>migration.js\<close>
  and in the earlier variant of the script that comes with \<open>undo.js\<close>.

  An entry of the journal, as \<open>logAction\<close> receives it: a property the object literal in
  the source does not have is \<open>None\<close>. The entries kept in memory hold the driver's values
  and those read back from the file hold parsed JSON, so the type of values is a parameter.
\<close>

record 'v entry =
  collection :: string
  action :: string
  status :: string
  a_id :: "'v option"
  document :: "'v option"
  previous :: "'v option"
  update :: "'v option"
  error :: "string option"

record 'v migration_log =
  tag :: string
  createdAt :: string
  actions :: "'v entry list"

record config =
  dryRun :: bool
  migrationDir :: string

text \<open>The state of a migration run: the store, \<open>migrationLog\<close> and the files written.\<close>

record world =
  db :: store
  migrationLog :: "bson migration_log"
  files :: "string \<rightharpoonup> json migration_log"

text \<open>\<open>path.join(dir, name)\<close>, for a directory and a file name that need no normalising.\<close>

definition path_join :: "string \<Rightarrow> string \<Rightarrow> string" where
  "path_join dir name = dir @ ''/'' @ name"

definition MIGRATION_FILE :: "config \<Rightarrow> string \<Rightarrow> string" where
  "MIGRATION_FILE cfg t = path_join (migrationDir cfg) (''migration_'' @ t @ ''.json'')"

text \<open>
  What the file holds after \<open>JSON.stringify(migrationLog, null, 2)\<close>, as \<open>JSON.parse\<close>
  reads it back.
\<close>

definition stringify_entry :: "bson entry \<Rightarrow> json entry" where
  "stringify_entry e =
     \<lparr>collection = collection e, action = action e, status = status e,
      a_id = map_option toJSON (a_id e), document = map_option toJSON (document e),
      previous = map_option toJSON (previous e), update = map_option toJSON (update e),
      error = error e\<rparr>"

definition stringify_log :: "bson migration_log \<Rightarrow> json migration_log" where
  "stringify_log l =
     \<lparr>tag = tag l, createdAt = createdAt l, actions = map stringify_entry (actions l)\<rparr>"

definition logAction :: "config \<Rightarrow> bson entry \<Rightarrow> world \<Rightarrow> world" where
  "logAction cfg e w =
     (let l = (migrationLog w)\<lparr>actions := actions (migrationLog w) @ [e]\<rparr> in
      w\<lparr>migrationLog := l,
        files := (files w)(MIGRATION_FILE cfg (tag l) \<mapsto> stringify_log l)\<rparr>)"

definition insertDocument :: "config \<Rightarrow> string \<Rightarrow> doc \<Rightarrow> world \<Rightarrow> world" where
  "insertDocument cfg c d w =
     (if dryRun cfg
      then logAction cfg
             \<lparr>collection = c, action = ''insert'', status = ''dryRun'', a_id = None,
              document = Some (BObj d), previous = None, update = None, error = None\<rparr> w
      else (case insertOne c d (db w) of
              (Inr insertedId, d', s') \<Rightarrow>
                logAction cfg
                  \<lparr>collection = c, action = ''insert'', status = ''success'',
                   a_id = Some insertedId, document = Some (BObj d'), previous = None,
                   update = None, error = None\<rparr> (w\<lparr>db := s'\<rparr>)
            | (Inl err, d', s') \<Rightarrow>
                logAction cfg
                  \<lparr>collection = c, action = ''insert'', status = ''error'', a_id = None,
                   document = Some (BObj d'), previous = None, update = None,
                   error = Some err\<rparr> (w\<lparr>db := s'\<rparr>)))"

fun insertMultipleDocuments :: "config \<Rightarrow> string \<Rightarrow> doc list \<Rightarrow> world \<Rightarrow> world" where
  "insertMultipleDocuments cfg c [] w = w"
| "insertMultipleDocuments cfg c (d # ds) w =
     insertMultipleDocuments cfg c ds (insertDocument cfg c d w)"

text \<open>The two loops of \<open>updateDocuments\<close> over the documents that \<open>find\<close> returned.\<close>

fun log_dry_updates :: "config \<Rightarrow> string \<Rightarrow> bson \<Rightarrow> doc list \<Rightarrow> world \<Rightarrow> world" where
  "log_dry_updates cfg c u [] w = w"
| "log_dry_updates cfg c u (d # ds) w =
     log_dry_updates cfg c u ds
       (logAction cfg
          \<lparr>collection = c, action = ''update'', status = ''dryRun'', a_id = doc_id d,
           document = None, previous = Some (BObj d), update = Some u, error = None\<rparr> w)"

fun apply_updates :: "config \<Rightarrow> string \<Rightarrow> bson \<Rightarrow> doc list \<Rightarrow> world \<Rightarrow> world" where
  "apply_updates cfg c u [] w = w"
| "apply_updates cfg c u (d # ds) w =
     apply_updates cfg c u ds
       (case updateOne c (matches (id_filter (doc_id d))) u (db w) of
          (Inr n, s') \<Rightarrow>
            logAction cfg
              \<lparr>collection = c, action = ''update'', status = ''success'', a_id = doc_id d,
               document = None, previous = Some (BObj d), update = Some u,
               error = None\<rparr> (w\<lparr>db := s'\<rparr>)
        | (Inl err, s') \<Rightarrow>
            logAction cfg
              \<lparr>collection = c, action = ''update'', status = ''error'', a_id = doc_id d,
               document = None, previous = None, update = Some u,
               error = Some err\<rparr> (w\<lparr>db := s'\<rparr>))"

definition updateDocuments :: "config \<Rightarrow> string \<Rightarrow> bson \<Rightarrow> bson \<Rightarrow> world \<Rightarrow> world" where
  "updateDocuments cfg c flt u w =
     (if dryRun cfg
      then log_dry_updates cfg c u (find_toArray c (matches flt) (db w)) w
      else apply_updates cfg c u (find_toArray c (matches flt) (db w)) w)"

text \<open>
  \<open>runMigration\<close> of \<open>migration.js\<close>. \<open>xData\<close> is the parsed data file and \<open>tagDate\<close> the
  value of \<open>new Date(TAG)\<close>. A store that cannot be reached makes \<open>connectToDB\<close> raise,
  which ends the script with exit code 1 before anything else is done.
\<close>

definition runMigration :: "config \<Rightarrow> doc list \<Rightarrow> bson \<Rightarrow> world \<Rightarrow> string + world" where
  "runMigration cfg xData tagDate w =
     (if \<not> reachable (db w) then Inl unavailable
      else Inr (updateDocuments cfg ''z'' (BObj [(''status'', BStr ''old'')])
                  (BObj [(''$set'', BObj [(''status'', BStr ''new''), (''updatedAt'', tagDate)])])
                  (insertDocument cfg ''y'' [(''name'', BStr ''Y1''), (''createdAt'', tagDate)]
                     (insertMultipleDocuments cfg ''x'' xData w))))"

text \<open>The journal as the script starts: no action yet, and the tag of the invocation.\<close>

definition start_world :: "string \<Rightarrow> string \<Rightarrow> store \<Rightarrow> (string \<rightharpoonup> json migration_log) \<Rightarrow> world" where
  "start_world t now s fs =
     \<lparr>db = s, migrationLog = \<lparr>tag = t, createdAt = now, actions = []\<rparr>, files = fs\<rparr>"

section \<open>The undo script\<close>

text \<open>
  \<open>new ObjectId(v)\<close> on a parsed JSON value, as the constructor of \<open>bson\<close> reads it. Of an
  object that has a property \<open>id\<close> it takes that property, which must be a string. A
  string of 24 hexadecimal digits then names the identifier with these digits, and any
  other string makes the constructor raise. Nothing, \<open>null\<close> or a number makes it
  generate a new identifier, which no stored document has. Every other value (a boolean,
  an array, an object without \<open>id\<close>) makes it raise.
\<close>

datatype oid_result = Hex string | Generated | Raises string

definition is_hex :: "char \<Rightarrow> bool" where
  "is_hex c = (c \<in> set ''0123456789abcdefABCDEF'')"

definition to_lower :: "char \<Rightarrow> char" where
  "to_lower c =
     (if c = CHR ''A'' then CHR ''a'' else if c = CHR ''B'' then CHR ''b''
      else if c = CHR ''C'' then CHR ''c'' else if c = CHR ''D'' then CHR ''d''
      else if c = CHR ''E'' then CHR ''e'' else if c = CHR ''F'' then CHR ''f'' else c)"

definition from_hex_string :: "string \<Rightarrow> oid_result" where
  "from_hex_string s =
     (if length s = 24 \<and> list_all is_hex s then Hex (map to_lower s)
      else Raises ''BSONError: input must be a 24 character hex string, 12 byte Uint8Array, or an integer'')"

definition ObjectId :: "json option \<Rightarrow> oid_result" where
  "ObjectId v =
     (case v of
        None \<Rightarrow> Generated
      | Some JNull \<Rightarrow> Generated
      | Some (JNum n) \<Rightarrow> Generated
      | Some (JStr s) \<Rightarrow> from_hex_string s
      | Some (JObj kvs) \<Rightarrow>
          (case map_of kvs ''id'' of
             None \<Rightarrow> Raises ''BSONError: Argument passed in does not match the accepted types''
           | Some (JStr s) \<Rightarrow> from_hex_string s
           | Some _ \<Rightarrow>
               Raises ''BSONError: Argument passed in must have an id that is of type string or Buffer'')
      | Some _ \<Rightarrow> Raises ''BSONError: Argument passed in does not match the accepted types'')"

text \<open>The documents that the filter \<open>{ _id: new ObjectId(v) }\<close> matches.\<close>

fun by_oid :: "oid_result \<Rightarrow> doc \<Rightarrow> bool" where
  "by_oid (Hex h) d = (doc_id d = Some (BOid h))"
| "by_oid Generated d = False"
| "by_oid (Raises e) d = False"

datatype log_line = Info string | Error string

text \<open>
  The body of the \<open>try\<close> block, in its two \<open>if\<close> statements. Each gives the error raised,
  if any, and the store and the log as it leaves them.
\<close>

definition undo_insert ::
  "json entry \<Rightarrow> store \<times> log_line list \<Rightarrow> string option \<times> store \<times> log_line list" where
  "undo_insert a st =
     (case st of (s, lg) \<Rightarrow>
        if action a = ''insert'' \<and> status a = ''success''
        then (case ObjectId (a_id a) of
                Raises e \<Rightarrow> (Some e, s, lg)
              | r \<Rightarrow>
                  (case deleteOne (collection a) (by_oid r) s of
                     (Inl e, s') \<Rightarrow> (Some e, s', lg)
                   | (Inr n, s') \<Rightarrow>
                       (None, s', lg @ [Info (''Deleted inserted doc _id='' @ js_String (a_id a)
                                           @ '' from '' @ quoted (collection a))])))
        else (None, s, lg))"

definition undo_update ::
  "json entry \<Rightarrow> store \<times> log_line list \<Rightarrow> string option \<times> store \<times> log_line list" where
  "undo_update a st =
     (case st of (s, lg) \<Rightarrow>
        if action a = ''update'' \<and> status a = ''success'' \<and> truthy (previous a)
        then (case ObjectId (a_id a) of
                Raises e \<Rightarrow> (Some e, s, lg)
              | r \<Rightarrow>
                  (case replaceOne (collection a) (by_oid r) (of_json (the (previous a))) s of
                     (Inl e, s') \<Rightarrow> (Some e, s', lg)
                   | (Inr n, s') \<Rightarrow>
                       (None, s', lg @ [Info (''Restored doc _id='' @ js_String (a_id a)
                                           @ '' in '' @ quoted (collection a))])))
        else (None, s, lg))"

definition undo_failed :: "json entry \<Rightarrow> string \<Rightarrow> log_line" where
  "undo_failed a e =
     Error (''Undo failed for _id='' @ js_String (a_id a) @ '' in '' @ quoted (collection a)
            @ '': '' @ e)"

text \<open>One turn of the loop: the \<open>try\<close> block and its \<open>catch\<close>.\<close>

definition undo_action :: "json entry \<Rightarrow> store \<times> log_line list \<Rightarrow> store \<times> log_line list" where
  "undo_action a st =
     (case undo_insert a st of
        (Some e, s', lg') \<Rightarrow> (s', lg' @ [undo_failed a e])
      | (None, st') \<Rightarrow>
          (case undo_update a st' of
             (Some e, s'', lg'') \<Rightarrow> (s'', lg'' @ [undo_failed a e])
           | (None, st'') \<Rightarrow> st''))"

fun undo_loop :: "json entry list \<Rightarrow> store \<times> log_line list \<Rightarrow> store \<times> log_line list" where
  "undo_loop [] st = st"
| "undo_loop (a # as) st = undo_loop as (undo_action a st)"

text \<open>
  \<open>FILTER_ID ? migrationData.actions.filter(a => String(a._id) === FILTER_ID)
  : migrationData.actions\<close>: a missing argument and the empty string are both falsy.
\<close>

definition candidates :: "string option \<Rightarrow> json entry list \<Rightarrow> json entry list" where
  "candidates FILTER_ID acts =
     (case FILTER_ID of
        None \<Rightarrow> acts
      | Some f \<Rightarrow> if f = [] then acts else filter (\<lambda>a. js_String (a_id a) = f) acts)"

definition start_line :: "string \<Rightarrow> string option \<Rightarrow> log_line" where
  "start_line TAG_UNDO FILTER_ID =
     Info (''Starting undo for tag '' @ TAG_UNDO @
             (case FILTER_ID of
                None \<Rightarrow> []
              | Some f \<Rightarrow> if f = [] then [] else '' (filtered by _id='' @ f @ '')''))"

definition undoMigration ::
  "string \<Rightarrow> string option \<Rightarrow> json migration_log \<Rightarrow> store \<Rightarrow> string + store \<times> log_line list" where
  "undoMigration TAG_UNDO FILTER_ID migrationData s =
     (if \<not> reachable s then Inl unavailable
      else
        (case undo_loop (candidates FILTER_ID (actions migrationData))
                (s, [start_line TAG_UNDO FILTER_ID])
         of (s', lg) \<Rightarrow> Inr (s', lg @ [Info ''Undo complete.''])))"

text \<open>
  The whole of \<open>undo.js\<close>: the two checks at the top of the file, then \<open>undoMigration\<close>.
  \<open>connections\<close> counts the calls of \<open>connectToDBUndo\<close>; the file that exists is taken to
  hold a journal.
\<close>

record undo_result =
  exit_code :: nat
  console :: "string list"
  logged :: "log_line list"
  store_after :: store
  connections :: nat

definition FILE_PATH :: "config \<Rightarrow> string \<Rightarrow> string" where
  "FILE_PATH cfg t = path_join (migrationDir cfg) (''migration_'' @ t @ ''.json'')"

definition undo_script ::
  "config \<Rightarrow> string option \<Rightarrow> string option \<Rightarrow> (string \<rightharpoonup> json migration_log) \<Rightarrow> store
     \<Rightarrow> undo_result" where
  "undo_script cfg TAG_UNDO FILTER_ID fs s =
     (if TAG_UNDO = None \<or> TAG_UNDO = Some []
      then \<lparr>exit_code = 1,
            console = [''Please provide a tag to undo. Usage: node undo.js <TAG> [optional _id]''],
            logged = [], store_after = s, connections = 0\<rparr>
      else
        (case fs (FILE_PATH cfg (the TAG_UNDO)) of
           None \<Rightarrow>
             \<lparr>exit_code = 1,
              console = [''Migration file not found: '' @ FILE_PATH cfg (the TAG_UNDO)],
              logged = [], store_after = s, connections = 0\<rparr>
         | Some migrationData \<Rightarrow>
             (case undoMigration (the TAG_UNDO) FILTER_ID migrationData s of
                Inl err \<Rightarrow>
                  \<lparr>exit_code = 1, console = [],
                   logged = [Error (''Undo script failed: '' @ err)], store_after = s,
                   connections = 1\<rparr>
              | Inr (s', lg) \<Rightarrow>
                  \<lparr>exit_code = 0, console = [], logged = lg, store_after = s',
                   connections = 1\<rparr>)))"

section \<open>Notions used in the statements\<close>

text \<open>
  When an entry carries \<open>previous\<close>: first as the specification words it (an update that
  succeeded), then as the scripts write it (an update that succeeded or was previewed).
\<close>

definition spec_previous_rule :: "'v entry \<Rightarrow> bool" where
  "spec_previous_rule e =
     (previous e \<noteq> None \<longleftrightarrow> action e = ''update'' \<and> status e = ''success'')"

definition previous_rule :: "'v entry \<Rightarrow> bool" where
  "previous_rule e =
     (previous e \<noteq> None \<longleftrightarrow>
        action e = ''update'' \<and> (status e = ''success'' \<or> status e = ''dryRun''))"

text \<open>
  What the store answers to the calls of \<open>updateOne\<close> that the loop of \<open>updateDocuments\<close>
  makes for the documents \<open>ds\<close>, one after the other.
\<close>

fun update_results :: "string \<Rightarrow> bson \<Rightarrow> doc list \<Rightarrow> store \<Rightarrow> (string + nat) list" where
  "update_results c u [] s = []"
| "update_results c u (d # ds) s =
     (case updateOne c (matches (id_filter (doc_id d))) u s of
        (r, s') \<Rightarrow> r # update_results c u ds s')"

text \<open>
  The identifiers that \<open>new ObjectId(action._id)\<close> names for the actions of a list, and
  the documents of a collection whose identifier is none of the given ones.
\<close>

definition named_ids :: "json entry list \<Rightarrow> string list" where
  "named_ids as = concat (map (\<lambda>a. case ObjectId (a_id a) of Hex h \<Rightarrow> [h] | _ \<Rightarrow> []) as)"

definition other_docs :: "string list \<Rightarrow> doc list \<Rightarrow> doc list" where
  "other_docs hs ds = filter (\<lambda>d. \<forall>h\<in>set hs. doc_id d \<noteq> Some (BOid h)) ds"

text \<open>
  A store that answers every write, and a store whose collections have no identifier
  twice (the server's unique index on \<open>_id\<close>).
\<close>

definition answering :: "store \<Rightarrow> bool" where
  "answering s = (True \<notin> set (faults s))"

definition unique_ids :: "store \<Rightarrow> bool" where
  "unique_ids s = (\<forall>c. distinct (map doc_id (colls s c)))"

text \<open>
  The file of the run holds the journal as it is in memory: what \<open>persistLog\<close> has written
  under the path made from the tag is the whole run object, every entry included.
\<close>

definition journal_on_disk :: "config \<Rightarrow> world \<Rightarrow> bool" where
  "journal_on_disk cfg w =
     (files w (MIGRATION_FILE cfg (tag (migrationLog w))) = Some (stringify_log (migrationLog w)))"

text \<open>
  What one turn of the undo loop makes of a single document \<open>d\<close> of collection \<open>c\<close> when
  the store answers (\<open>None\<close>: the document is deleted), and what the whole loop makes of it.
\<close>

definition undo_doc :: "json entry \<Rightarrow> string \<Rightarrow> doc \<Rightarrow> doc option" where
  "undo_doc a c d =
     (if collection a \<noteq> c then Some d
      else if action a = ''insert'' \<and> status a = ''success''
      then (if by_oid (ObjectId (a_id a)) d then None else Some d)
      else if action a = ''update'' \<and> status a = ''success'' \<and> truthy (previous a)
      then (case of_json (the (previous a)) of
              BObj kvs \<Rightarrow>
                if \<not> dollar_key kvs \<and> by_oid (ObjectId (a_id a)) d
                   \<and> (map_of kvs ''_id'' = None \<or> map_of kvs ''_id'' = doc_id d)
                then Some (replacement_of d kvs) else Some d
            | _ \<Rightarrow> Some d)
      else Some d)"

fun undo_docs :: "json entry list \<Rightarrow> string \<Rightarrow> doc \<Rightarrow> doc option" where
  "undo_docs [] c d = Some d"
| "undo_docs (a # as) c d =
     (case undo_doc a c d of None \<Rightarrow> None | Some d' \<Rightarrow> undo_docs as c d')"

section \<open>A store and a run to compute with\<close>

text \<open>
  Collection \<open>z\<close> holds three documents, two of them with status \<open>old\<close>; the store reads
  \<open>$set\<close> instructions. The argument of \<open>example_store\<close> says which writes will fail.
\<close>

definition set_operator :: "bson \<Rightarrow> doc \<Rightarrow> string + doc" where
  "set_operator u d =
     (case u of
        BObj [(opr, BObj kvs)] \<Rightarrow>
          if opr = ''$set'' then Inr (fold (\<lambda>kv. set_field (fst kv) (snd kv)) kvs d)
          else Inl ''MongoServerError: Unknown modifier''
      | _ \<Rightarrow> Inl ''MongoServerError: Unknown modifier'')"

definition doc_a :: doc where
  "doc_a = [(''_id'', BOid ''aaaaaaaaaaaaaaaaaaaaaaaa''), (''status'', BStr ''old''),
            (''name'', BStr ''A'')]"

definition doc_b :: doc where
  "doc_b = [(''_id'', BOid ''bbbbbbbbbbbbbbbbbbbbbbbb''), (''status'', BStr ''old'')]"

definition doc_c :: doc where
  "doc_c = [(''_id'', BOid ''cccccccccccccccccccccccc''), (''status'', BStr ''kept'')]"

definition example_store :: "bool list \<Rightarrow> store" where
  "example_store fl =
     \<lparr>colls = (\<lambda>c. if c = ''z'' then [doc_a, doc_b, doc_c] else []),
      faults = fl, next_pk = 0, interp = set_operator, reachable = True\<rparr>"

definition example_config :: "bool \<Rightarrow> config" where
  "example_config dry = \<lparr>dryRun = dry, migrationDir = ''migrations''\<rparr>"

definition old_filter :: bson where
  "old_filter = BObj [(''status'', BStr ''old'')]"

definition new_update :: bson where
  "new_update = BObj [(''$set'', BObj [(''status'', BStr ''new''),
                                       (''updatedAt'', BDate ''2024-01-02T03:04:05.678Z'')])]"

definition example_world :: "bool list \<Rightarrow> world" where
  "example_world fl =
     start_world ''2024-01-02T03_04_05_678Z'' ''2024-01-02T03:04:05.679Z''
       (example_store fl) Map.empty"

text \<open>The example store after the update of \<open>runMigration\<close>, not in dry-run mode.\<close>

definition after_update :: world where
  "after_update =
     updateDocuments (example_config False) ''z'' old_filter new_update (example_world [])"

text \<open>
  A journal written by hand: two inserts and one update, all recorded as successful, for
  the three documents of the example store; the previous content of the update has no
  \<open>_id\<close> of its own.
\<close>

definition crafted_journal :: "json migration_log" where
  "crafted_journal =
     \<lparr>tag = ''2024-01-02T03_04_05_678Z'', createdAt = ''2024-01-02T03:04:05.679Z'',
      actions =
        [\<lparr>collection = ''z'', action = ''insert'', status = ''success'',
          a_id = Some (JStr ''aaaaaaaaaaaaaaaaaaaaaaaa''),
          document = Some (JObj [(''status'', JStr ''old'')]), previous = None, update = None,
          error = None\<rparr>,
         \<lparr>collection = ''z'', action = ''insert'', status = ''success'',
          a_id = Some (JStr ''bbbbbbbbbbbbbbbbbbbbbbbb''),
          document = Some (JObj [(''status'', JStr ''old'')]), previous = None, update = None,
          error = None\<rparr>,
         \<lparr>collection = ''z'', action = ''update'', status = ''success'',
          a_id = Some (JStr ''cccccccccccccccccccccccc''), document = None,
          previous = Some (JObj [(''status'', JStr ''first'')]), update = Some (JObj []),
          error = None\<rparr>]\<rparr>"

definition crafted_files :: "string \<rightharpoonup> json migration_log" where
  "crafted_files = [''migrations/migration_2024-01-02T03_04_05_678Z.json'' \<mapsto> crafted_journal]"

text \<open>
  A journal written by hand with two inserts recorded as successful: the \<open>_id\<close> of the
  first is an object whose \<open>id\<close> holds the digits of the second document's identifier,
  the \<open>_id\<close> of the second is the string of these digits.
\<close>

definition object_id_insert :: "json entry" where
  "object_id_insert =
     \<lparr>collection = ''z'', action = ''insert'', status = ''success'',
      a_id = Some (JObj [(''id'', JStr ''bbbbbbbbbbbbbbbbbbbbbbbb'')]),
      document = Some (JObj [(''status'', JStr ''old'')]), previous = None, update = None,
      error = None\<rparr>"

definition string_id_insert :: "json entry" where
  "string_id_insert =
     \<lparr>collection = ''z'', action = ''insert'', status = ''success'',
      a_id = Some (JStr ''bbbbbbbbbbbbbbbbbbbbbbbb''),
      document = Some (JObj [(''status'', JStr ''old'')]), previous = None, update = None,
      error = None\<rparr>"

definition object_id_files :: "string \<rightharpoonup> json migration_log" where
  "object_id_files =
     [''migrations/migration_2024-01-02T03_04_05_678Z.json'' \<mapsto>
        \<lparr>tag = ''2024-01-02T03_04_05_678Z'', createdAt = ''2024-01-02T03:04:05.679Z'',
         actions = [object_id_insert, string_id_insert]\<rparr>]"

text \<open>An update recorded as successful whose previous content is the empty object.\<close>

definition empty_previous :: "json entry" where
  "empty_previous =
     \<lparr>collection = ''z'', action = ''update'', status = ''success'',
      a_id = Some (JStr ''aaaaaaaaaaaaaaaaaaaaaaaa''), document = None,
      previous = Some (JObj []), update = None, error = None\<rparr>"

section \<open>Properties of the run tag\<close>

lemma dot_in_toISOString: "CHR ''.'' \<in> set (toISOString t)"
  by (simp add: toISOString_def)

lemma no_dot_after_decode: "CHR ''.'' \<notin> set (decode_tag (TAG_of s))"
  by (auto simp: decode_tag_def TAG_of_def)

lemma decode_tag_not_inverse: "decode_tag (TAG_of (toISOString t)) \<noteq> toISOString t"
  using dot_in_toISOString [of t] no_dot_after_decode [of "toISOString t"] by metis

text \<open>
  C8. The claim: the legacy restore deletes the documents created at or after the time
  encoded in the tag, that is, decoding the tag gives back the time it was derived from.
  At the invocation time 2024-01-02T03:04:05.678Z the tag is \<open>2024-01-02T03_04_05_678Z\<close>
  and the string the undo script hands to \<open>Date\<close> is \<open>2024-01-02T03:04:05:678Z\<close>: the
  separator of the milliseconds comes back as a colon, so the decoded text is not the
  timestamp the tag was made from.
\<close>

theorem legacy_tag_decode_differs:
  "TAG_of (toISOString \<lparr>year = 2024, month = 1, day = 2, hour = 3, minute = 4,
        second = 5, millis = 678\<rparr>) = ''2024-01-02T03_04_05_678Z''
   \<and> decode_tag ''2024-01-02T03_04_05_678Z'' = ''2024-01-02T03:04:05:678Z''
   \<and> decode_tag ''2024-01-02T03_04_05_678Z''
       \<noteq> toISOString \<lparr>year = 2024, month = 1, day = 2, hour = 3, minute = 4,
             second = 5, millis = 678\<rparr>"
  by code_simp

section \<open>Properties of the journal\<close>

lemma logAction_actions [simp]:
  "actions (migrationLog (logAction cfg e w)) = actions (migrationLog w) @ [e]"
  by (simp add: logAction_def Let_def)

lemma logAction_tag [simp]: "tag (migrationLog (logAction cfg e w)) = tag (migrationLog w)"
  by (simp add: logAction_def Let_def)

lemma logAction_createdAt [simp]:
  "createdAt (migrationLog (logAction cfg e w)) = createdAt (migrationLog w)"
  by (simp add: logAction_def Let_def)

lemma logAction_db [simp]: "db (logAction cfg e w) = db w"
  by (simp add: logAction_def Let_def)

lemma logAction_file:
  "files (logAction cfg e w) (MIGRATION_FILE cfg (tag (migrationLog w)))
     = Some (stringify_log (migrationLog (logAction cfg e w)))"
  by (simp add: logAction_def Let_def)

lemma fold_logAction_actions:
  "actions (migrationLog (fold (logAction cfg) es w)) = actions (migrationLog w) @ es"
  by (induction es arbitrary: w) simp_all

lemma fold_logAction_tag:
  "tag (migrationLog (fold (logAction cfg) es w)) = tag (migrationLog w)"
  by (induction es arbitrary: w) simp_all

lemma fold_logAction_createdAt:
  "createdAt (migrationLog (fold (logAction cfg) es w)) = createdAt (migrationLog w)"
  by (induction es arbitrary: w) simp_all

lemma fold_logAction_db: "db (fold (logAction cfg) es w) = db w"
  by (induction es arbitrary: w) simp_all

lemma fold_logAction_file:
  "files (fold (logAction cfg) es (logAction cfg e w)) (MIGRATION_FILE cfg (tag (migrationLog w)))
     = Some \<lparr>tag = tag (migrationLog w), createdAt = createdAt (migrationLog w),
             actions = map stringify_entry (actions (migrationLog w) @ e # es)\<rparr>"
proof (induction es arbitrary: e w rule: rev_induct)
  case Nil
  show ?case by (simp add: logAction_file stringify_log_def)
next
  case (snoc x xs)
  have "files (logAction cfg x (fold (logAction cfg) xs (logAction cfg e w)))
          (MIGRATION_FILE cfg (tag (migrationLog (fold (logAction cfg) xs (logAction cfg e w)))))
        = Some (stringify_log
                  (migrationLog (logAction cfg x (fold (logAction cfg) xs (logAction cfg e w)))))"
    by (rule logAction_file)
  then show ?case
    by (simp add: fold_logAction_tag fold_logAction_actions fold_logAction_createdAt
        stringify_log_def)
qed

lemma logAction_on_disk: "journal_on_disk cfg (logAction cfg e w)"
  using logAction_file [of cfg e w] by (simp add: journal_on_disk_def)

lemma on_disk_db [simp]: "journal_on_disk cfg (w\<lparr>db := s\<rparr>) = journal_on_disk cfg w"
  by (simp add: journal_on_disk_def)

lemma MIGRATION_FILE_inject: "MIGRATION_FILE cfg t = MIGRATION_FILE cfg t' \<longleftrightarrow> t = t'"
  by (simp add: MIGRATION_FILE_def path_join_def)

text \<open>
  C9. \<open>logAction\<close> puts exactly the one entry at the end of the run's actions, and when it
  returns the file named by the tag holds the whole run object. Whatever calls follow,
  the entries written before stay where they are, unchanged, both in memory and in the
  file; the store is not touched. The file is \<open>migration_<tag>.json\<close> in the directory of
  the journals, and two tags never share a file.
\<close>

theorem record_appends_and_persists:
  "actions (migrationLog (logAction cfg e w)) = actions (migrationLog w) @ [e]
   \<and> files (logAction cfg e w) (MIGRATION_FILE cfg (tag (migrationLog w)))
       = Some \<lparr>tag = tag (migrationLog w), createdAt = createdAt (migrationLog w),
               actions = map stringify_entry (actions (migrationLog w) @ [e])\<rparr>
   \<and> actions (migrationLog (fold (logAction cfg) es (logAction cfg e w)))
       = actions (migrationLog w) @ e # es
   \<and> files (fold (logAction cfg) es (logAction cfg e w))
         (MIGRATION_FILE cfg (tag (migrationLog w)))
       = Some \<lparr>tag = tag (migrationLog w), createdAt = createdAt (migrationLog w),
               actions = map stringify_entry (actions (migrationLog w) @ e # es)\<rparr>
   \<and> db (fold (logAction cfg) es (logAction cfg e w)) = db w
   \<and> MIGRATION_FILE cfg (tag (migrationLog w))
       = migrationDir cfg @ ''/migration_'' @ tag (migrationLog w) @ ''.json''
   \<and> (MIGRATION_FILE cfg t = MIGRATION_FILE cfg t' \<longleftrightarrow> t = t')"
  using fold_logAction_file [of cfg "[]" e w]
  by (simp add: fold_logAction_actions fold_logAction_file fold_logAction_db
      MIGRATION_FILE_inject)
     (simp add: MIGRATION_FILE_def path_join_def)

section \<open>Properties of the migration script\<close>

lemma insertDocument_actions:
  "\<exists>e. actions (migrationLog (insertDocument cfg c d w)) = actions (migrationLog w) @ [e]
       \<and> action e = ''insert'' \<and> previous e = None"
  by (auto simp: insertDocument_def split: prod.splits sum.splits)

lemma insertMultipleDocuments_actions:
  "\<exists>es. actions (migrationLog (insertMultipleDocuments cfg c ds w)) = actions (migrationLog w) @ es
       \<and> list_all (\<lambda>e. action e = ''insert'' \<and> previous e = None) es"
proof (induction ds arbitrary: w)
  case Nil
  show ?case by simp
next
  case (Cons d ds)
  obtain e where e: "actions (migrationLog (insertDocument cfg c d w)) = actions (migrationLog w) @ [e]"
    "action e = ''insert''" "previous e = None"
    using insertDocument_actions by blast
  obtain es where es:
    "actions (migrationLog (insertMultipleDocuments cfg c ds (insertDocument cfg c d w)))
       = actions (migrationLog (insertDocument cfg c d w)) @ es"
    "list_all (\<lambda>e. action e = ''insert'' \<and> previous e = None) es"
    using Cons.IH by blast
  have "actions (migrationLog (insertMultipleDocuments cfg c (d # ds) w))
          = actions (migrationLog w) @ (e # es)"
    using e(1) es(1) by simp
  moreover have "list_all (\<lambda>e. action e = ''insert'' \<and> previous e = None) (e # es)"
    using e es(2) by simp
  ultimately show ?case by blast
qed

lemma log_dry_updates_db [simp]: "db (log_dry_updates cfg c u ds w) = db w"
  by (induction ds arbitrary: w) simp_all

lemma log_dry_updates_actions:
  "actions (migrationLog (log_dry_updates cfg c u ds w))
     = actions (migrationLog w)
       @ map (\<lambda>d. \<lparr>collection = c, action = ''update'', status = ''dryRun'', a_id = doc_id d,
                   document = None, previous = Some (BObj d), update = Some u, error = None\<rparr>) ds"
  by (induction ds arbitrary: w) simp_all

lemma apply_updates_actions:
  "\<exists>es. actions (migrationLog (apply_updates cfg c u ds w)) = actions (migrationLog w) @ es
      \<and> map a_id es = map doc_id ds
      \<and> map error es
          = map (\<lambda>r. case r of Inl e \<Rightarrow> Some e | Inr n \<Rightarrow> None) (update_results c u ds (db w))
      \<and> map status es
          = map (\<lambda>r. case r of Inl e \<Rightarrow> ''error'' | Inr n \<Rightarrow> ''success'')
              (update_results c u ds (db w))
      \<and> list_all (\<lambda>e. action e = ''update'' \<and> collection e = c
                       \<and> (previous e \<noteq> None \<longleftrightarrow> status e = ''success'')) es"
proof (induction ds arbitrary: w)
  case Nil
  show ?case by simp
next
  case (Cons d ds)
  obtain r s' where r: "updateOne c (matches (id_filter (doc_id d))) u (db w) = (r, s')"
    by (cases "updateOne c (matches (id_filter (doc_id d))) u (db w)")
  define e where "e = (case r of
       Inr n \<Rightarrow> \<lparr>collection = c, action = ''update'', status = ''success'', a_id = doc_id d,
               document = None, previous = Some (BObj d), update = Some u, error = None\<rparr>
     | Inl err \<Rightarrow> \<lparr>collection = c, action = ''update'', status = ''error'', a_id = doc_id d,
               document = None, previous = None, update = Some u, error = Some err\<rparr>)"
  have step: "apply_updates cfg c u (d # ds) w
                = apply_updates cfg c u ds (logAction cfg e (w\<lparr>db := s'\<rparr>))"
    using r by (simp add: e_def split: sum.splits)
  from Cons.IH [of "logAction cfg e (w\<lparr>db := s'\<rparr>)"]
  obtain es where es:
    "actions (migrationLog (apply_updates cfg c u ds (logAction cfg e (w\<lparr>db := s'\<rparr>))))
       = actions (migrationLog w) @ e # es"
    "map a_id es = map doc_id ds"
    "map error es
       = map (\<lambda>r. case r of Inl e \<Rightarrow> Some e | Inr n \<Rightarrow> None) (update_results c u ds s')"
    "map status es
       = map (\<lambda>r. case r of Inl e \<Rightarrow> ''error'' | Inr n \<Rightarrow> ''success'') (update_results c u ds s')"
    "list_all (\<lambda>e. action e = ''update'' \<and> collection e = c
                    \<and> (previous e \<noteq> None \<longleftrightarrow> status e = ''success'')) es"
    by auto
  have "actions (migrationLog (apply_updates cfg c u (d # ds) w))
          = actions (migrationLog w) @ (e # es)"
    using step es(1) by simp
  moreover have "map a_id (e # es) = map doc_id (d # ds)"
    using es(2) by (simp add: e_def split: sum.splits)
  moreover have "map error (e # es)
      = map (\<lambda>r. case r of Inl e \<Rightarrow> Some e | Inr n \<Rightarrow> None)
          (update_results c u (d # ds) (db w))"
    using es(3) r by (simp add: e_def split: sum.splits)
  moreover have "map status (e # es)
      = map (\<lambda>r. case r of Inl e \<Rightarrow> ''error'' | Inr n \<Rightarrow> ''success'')
          (update_results c u (d # ds) (db w))"
    using es(4) r by (simp add: e_def split: sum.splits)
  moreover have "list_all (\<lambda>e. action e = ''update'' \<and> collection e = c
                    \<and> (previous e \<noteq> None \<longleftrightarrow> status e = ''success'')) (e # es)"
    using es(5) by (simp add: e_def split: sum.splits)
  ultimately show ?case by blast
qed

lemma updateDocuments_actions:
  "\<exists>es. actions (migrationLog (updateDocuments cfg c flt u w)) = actions (migrationLog w) @ es
      \<and> list_all (\<lambda>e. action e = ''update''
                       \<and> (previous e \<noteq> None \<longleftrightarrow> status e = ''success'' \<or> status e = ''dryRun'')) es"
proof (cases "dryRun cfg")
  case True
  then show ?thesis
    by (simp add: updateDocuments_def log_dry_updates_actions list_all_iff)
next
  case False
  from apply_updates_actions [of cfg c u "find_toArray c (matches flt) (db w)" w]
  obtain es where es:
    "actions (migrationLog (apply_updates cfg c u (find_toArray c (matches flt) (db w)) w))
       = actions (migrationLog w) @ es"
    "list_all (\<lambda>e. action e = ''update'' \<and> collection e = c
                    \<and> (previous e \<noteq> None \<longleftrightarrow> status e = ''success'')) es"
    "map status es
       = map (\<lambda>r. case r of Inl e \<Rightarrow> ''error'' | Inr n \<Rightarrow> ''success'')
           (update_results c u (find_toArray c (matches flt) (db w)) (db w))"
    by blast
  have "status e \<noteq> ''dryRun''" if "e \<in> set es" for e
  proof -
    have "status e \<in> set (map status es)" using that by simp
    then show ?thesis unfolding es(3) by (auto split: sum.splits)
  qed
  with es(2) have "list_all (\<lambda>e. action e = ''update''
        \<and> (previous e \<noteq> None \<longleftrightarrow> status e = ''success'' \<or> status e = ''dryRun'')) es"
    by (auto simp: list_all_iff)
  with es(1) False show ?thesis by (auto simp: updateDocuments_def)
qed

lemma previous_rule_stringify [simp]: "previous_rule (stringify_entry e) = previous_rule e"
  by (simp add: previous_rule_def stringify_entry_def)

lemma previous_rule_stringify_log [simp]:
  "list_all previous_rule (actions (stringify_log l)) = list_all previous_rule (actions l)"
  by (simp add: stringify_log_def list_all_iff)

lemma insert_entries_rule:
  "list_all (\<lambda>e. action e = ''insert'' \<and> previous e = None) es \<Longrightarrow> list_all previous_rule es"
  by (induction es) (simp_all add: previous_rule_def)

lemma update_entries_rule:
  "list_all (\<lambda>e. action e = ''update''
        \<and> (previous e \<noteq> None \<longleftrightarrow> status e = ''success'' \<or> status e = ''dryRun'')) es
   \<Longrightarrow> list_all previous_rule es"
  by (induction es) (simp_all add: previous_rule_def)

lemma written_by_insertDocument:
  "\<exists>es. actions (migrationLog (insertDocument cfg c d w)) = actions (migrationLog w) @ es
      \<and> list_all previous_rule es"
proof -
  obtain e where "actions (migrationLog (insertDocument cfg c d w)) = actions (migrationLog w) @ [e]"
    "action e = ''insert''" "previous e = None"
    using insertDocument_actions by blast
  then show ?thesis by (simp add: previous_rule_def)
qed

lemma written_by_insertMultipleDocuments:
  "\<exists>es. actions (migrationLog (insertMultipleDocuments cfg c ds w)) = actions (migrationLog w) @ es
      \<and> list_all previous_rule es"
  using insertMultipleDocuments_actions [of cfg c ds w] insert_entries_rule by blast

lemma written_by_updateDocuments:
  "\<exists>es. actions (migrationLog (updateDocuments cfg c flt u w)) = actions (migrationLog w) @ es
      \<and> list_all previous_rule es"
  using updateDocuments_actions [of cfg c flt u w] update_entries_rule by blast

lemma kept_by_insertDocument:
  "list_all previous_rule (actions (migrationLog w))
   \<Longrightarrow> list_all previous_rule (actions (migrationLog (insertDocument cfg c d w)))"
  using written_by_insertDocument [of cfg c d w] by auto

lemma kept_by_insertMultipleDocuments:
  "list_all previous_rule (actions (migrationLog w))
   \<Longrightarrow> list_all previous_rule (actions (migrationLog (insertMultipleDocuments cfg c ds w)))"
  using written_by_insertMultipleDocuments [of cfg c ds w] by auto

lemma kept_by_updateDocuments:
  "list_all previous_rule (actions (migrationLog w))
   \<Longrightarrow> list_all previous_rule (actions (migrationLog (updateDocuments cfg c flt u w)))"
  using written_by_updateDocuments [of cfg c flt u w] by auto

lemma runMigration_previous_rule:
  "case runMigration cfg xData tagDate (start_world t now s fs) of
     Inl err \<Rightarrow> \<not> reachable s
   | Inr w' \<Rightarrow> list_all previous_rule (actions (migrationLog w'))"
  by (auto simp: runMigration_def start_world_def
      intro!: kept_by_updateDocuments kept_by_insertDocument kept_by_insertMultipleDocuments)

text \<open>
  C1, as the scripts have it. Every entry that \<open>insertDocument\<close>, \<open>updateDocuments\<close> or a
  whole run writes, in memory and as the file holds it, carries \<open>previous\<close> exactly when it
  records an update whose status is \<open>success\<close> or \<open>dryRun\<close>: no insert entry and no
  entry with status \<open>error\<close> carries it.
\<close>

theorem previous_iff_update_applied_or_previewed:
  "list_all previous_rule
     (drop (length (actions (migrationLog w))) (actions (migrationLog (insertDocument cfg c d w))))
   \<and> list_all previous_rule
       (drop (length (actions (migrationLog w)))
          (actions (migrationLog (updateDocuments cfg c flt u w))))
   \<and> list_all previous_rule
       (drop (length (actions (migrationLog w)))
          (actions (stringify_log (migrationLog (insertDocument cfg c d w)))))
   \<and> list_all previous_rule
       (drop (length (actions (migrationLog w)))
          (actions (stringify_log (migrationLog (updateDocuments cfg c flt u w)))))
   \<and> (case runMigration cfg xData tagDate (start_world t now s fs) of
         Inl err \<Rightarrow> \<not> reachable s
       | Inr w' \<Rightarrow> list_all previous_rule (actions (migrationLog w'))
                  \<and> list_all previous_rule (actions (stringify_log (migrationLog w'))))"
proof -
  obtain es1 where 1: "actions (migrationLog (insertDocument cfg c d w)) = actions (migrationLog w) @ es1"
    "list_all previous_rule es1"
    using written_by_insertDocument by blast
  obtain es2 where 2: "actions (migrationLog (updateDocuments cfg c flt u w)) = actions (migrationLog w) @ es2"
    "list_all previous_rule es2"
    using written_by_updateDocuments by blast
  have 3: "list_all previous_rule (map stringify_entry es)" if "list_all previous_rule es" for es :: "bson entry list"
    using that by (simp add: list_all_iff)
  have 4: "case runMigration cfg xData tagDate (start_world t now s fs) of
         Inl err \<Rightarrow> \<not> reachable s
       | Inr w' \<Rightarrow> list_all previous_rule (actions (migrationLog w'))
                  \<and> list_all previous_rule (actions (stringify_log (migrationLog w')))"
    using runMigration_previous_rule [where cfg = cfg and xData = xData and tagDate = tagDate and t = t and now = now and s = s and fs = fs]
    by (simp split: sum.splits)
  show ?thesis
    using 1 2 3 4 by (simp add: stringify_log_def drop_map)
qed

lemma find_example [simp]:
  "find_toArray ''z'' (matches old_filter) (db (example_world fl)) = [doc_a, doc_b]"
  by (simp add: find_toArray_def example_world_def example_store_def old_filter_def doc_a_def
      doc_b_def doc_c_def start_world_def)

lemma example_world_actions [simp]: "actions (migrationLog (example_world fl)) = []"
  by (simp add: example_world_def start_world_def)

lemma example_dry [simp]: "dryRun (example_config b) = b"
  by (simp add: example_config_def)

text \<open>The rule at work: the two entries of a previewed update of the example store.\<close>

theorem previous_rule_witness:
  "list_all previous_rule
     (drop (length (actions (migrationLog (example_world []))))
        (actions (migrationLog
           (updateDocuments (example_config True) ''z'' old_filter new_update (example_world [])))))
   \<and> map status (actions (migrationLog
        (updateDocuments (example_config True) ''z'' old_filter new_update (example_world []))))
       = [''dryRun'', ''dryRun'']"
  using previous_iff_update_applied_or_previewed
    [where w = "example_world []" and cfg = "example_config True" and c = "''z''"
       and flt = old_filter and u = new_update]
  by (simp add: updateDocuments_def)

text \<open>
  C1, as the specification words it (\<open>previous\<close> exactly when an update succeeded), fails:
  the first entry that a previewed update of the example store writes has status
  \<open>dryRun\<close> and carries the document as \<open>previous\<close>.
\<close>

theorem dry_run_update_carries_previous:
  "status (hd (actions (migrationLog
      (updateDocuments (example_config True) ''z'' old_filter new_update (example_world [])))))
     = ''dryRun''
   \<and> previous (hd (actions (migrationLog
      (updateDocuments (example_config True) ''z'' old_filter new_update (example_world [])))))
     = Some (BObj doc_a)
   \<and> \<not> spec_previous_rule (hd (actions (migrationLog
      (updateDocuments (example_config True) ''z'' old_filter new_update (example_world [])))))"
  by (simp add: updateDocuments_def spec_previous_rule_def)

subsection \<open>Dry run\<close>

lemma insertDocument_dry:
  "dryRun cfg \<Longrightarrow> insertDocument cfg c d w = logAction cfg
             \<lparr>collection = c, action = ''insert'', status = ''dryRun'', a_id = None,
              document = Some (BObj d), previous = None, update = None, error = None\<rparr> w"
  by (simp add: insertDocument_def)

lemma insertMultiple_dry_db: "dryRun cfg \<Longrightarrow> db (insertMultipleDocuments cfg c ds w) = db w"
  by (induction ds arbitrary: w) (simp_all add: insertDocument_dry)

lemma insertMultiple_dry_actions:
  "dryRun cfg \<Longrightarrow> actions (migrationLog (insertMultipleDocuments cfg c ds w))
     = actions (migrationLog w)
       @ map (\<lambda>d. \<lparr>collection = c, action = ''insert'', status = ''dryRun'', a_id = None,
              document = Some (BObj d), previous = None, update = None, error = None\<rparr>) ds"
  by (induction ds arbitrary: w) (simp_all add: insertDocument_dry)

lemma replicate_mid: "replicate a x @ x # replicate b x = x # replicate (a + b) x"
  by (simp add: replicate_add replicate_app_Cons_same)

lemma insertDocument_on_disk: "journal_on_disk cfg (insertDocument cfg c d w)"
  by (auto simp: insertDocument_def logAction_on_disk split: prod.splits sum.splits)

lemma log_dry_updates_on_disk:
  "ds \<noteq> [] \<or> journal_on_disk cfg w \<Longrightarrow> journal_on_disk cfg (log_dry_updates cfg c u ds w)"
  by (induction ds arbitrary: w) (simp_all add: logAction_on_disk)

lemma apply_updates_on_disk:
  "ds \<noteq> [] \<or> journal_on_disk cfg w \<Longrightarrow> journal_on_disk cfg (apply_updates cfg c u ds w)"
proof (induction ds arbitrary: w)
  case Nil
  then show ?case by simp
next
  case (Cons d ds)
  have "journal_on_disk cfg
          (case updateOne c (matches (id_filter (doc_id d))) u (db w) of
             (Inr n, s') \<Rightarrow>
               logAction cfg
                 \<lparr>collection = c, action = ''update'', status = ''success'', a_id = doc_id d,
                  document = None, previous = Some (BObj d), update = Some u,
                  error = None\<rparr> (w\<lparr>db := s'\<rparr>)
           | (Inl err, s') \<Rightarrow>
               logAction cfg
                 \<lparr>collection = c, action = ''update'', status = ''error'', a_id = doc_id d,
                  document = None, previous = None, update = Some u,
                  error = Some err\<rparr> (w\<lparr>db := s'\<rparr>))"
    by (simp add: logAction_on_disk split: prod.splits sum.splits)
  then show ?case using Cons.IH by simp
qed

lemma updateDocuments_on_disk:
  "find_toArray c (matches flt) (db w) \<noteq> [] \<Longrightarrow> journal_on_disk cfg (updateDocuments cfg c flt u w)"
  by (simp add: updateDocuments_def log_dry_updates_on_disk apply_updates_on_disk)

text \<open>
  C4. With the dry-run flag set, \<open>insertDocument\<close> and \<open>updateDocuments\<close> leave the store
  as it is (they call no write), and they add to the journal one entry with status
  \<open>dryRun\<close> for the insert, and one for each document that the filter of the update
  matches, in the order of \<open>find\<close>. A whole run leaves the store as it is and writes one
  such entry for each element of the data file, one for the insert into \<open>y\<close> and one for
  each matching document of \<open>z\<close>. The entries are in the file of the run as well: after
  the insert, and after an update that matched a document, the file holds the journal.
\<close>

theorem dry_run_leaves_store_and_journals_each:
  assumes "dryRun cfg"
  shows "db (insertDocument cfg c d w) = db w
   \<and> actions (migrationLog (insertDocument cfg c d w))
       = actions (migrationLog w)
         @ [\<lparr>collection = c, action = ''insert'', status = ''dryRun'', a_id = None,
             document = Some (BObj d), previous = None, update = None, error = None\<rparr>]
   \<and> db (updateDocuments cfg c flt u w) = db w
   \<and> actions (migrationLog (updateDocuments cfg c flt u w))
       = actions (migrationLog w)
         @ map (\<lambda>d. \<lparr>collection = c, action = ''update'', status = ''dryRun'', a_id = doc_id d,
                     document = None, previous = Some (BObj d), update = Some u, error = None\<rparr>)
             (find_toArray c (matches flt) (db w))
   \<and> (case runMigration cfg xData tagDate w of
         Inl err \<Rightarrow> \<not> reachable (db w)
       | Inr w' \<Rightarrow> db w' = db w
           \<and> map status (actions (migrationLog w'))
               = map status (actions (migrationLog w))
                 @ replicate (length xData + 1
                     + length (find_toArray ''z'' (matches (BObj [(''status'', BStr ''old'')])) (db w)))
                     ''dryRun'')
   \<and> journal_on_disk cfg (insertDocument cfg c d w)
   \<and> (find_toArray c (matches flt) (db w) \<noteq> []
        \<longrightarrow> journal_on_disk cfg (updateDocuments cfg c flt u w))"
proof -
  have 1: "db (insertDocument cfg c d w) = db w" for c d w
    using assms by (simp add: insertDocument_dry)
  have 2: "db (updateDocuments cfg c flt u w) = db w" for c flt u w
    using assms by (simp add: updateDocuments_def)
  have 3: "actions (migrationLog (updateDocuments cfg c flt u w))
       = actions (migrationLog w)
         @ map (\<lambda>d. \<lparr>collection = c, action = ''update'', status = ''dryRun'', a_id = doc_id d,
                     document = None, previous = Some (BObj d), update = Some u, error = None\<rparr>)
             (find_toArray c (matches flt) (db w))" for c flt u w
    using assms by (simp add: updateDocuments_def log_dry_updates_actions)
  have 4: "case runMigration cfg xData tagDate w of
         Inl err \<Rightarrow> \<not> reachable (db w)
       | Inr w' \<Rightarrow> db w' = db w
           \<and> map status (actions (migrationLog w'))
               = map status (actions (migrationLog w))
                 @ replicate (length xData + 1
                     + length (find_toArray ''z'' (matches (BObj [(''status'', BStr ''old'')])) (db w)))
                     ''dryRun''"
    using assms
    by (simp add: runMigration_def 1 2 3 insertMultiple_dry_db insertMultiple_dry_actions
        insertDocument_dry comp_def map_replicate_const replicate_mid)
  have 5: "journal_on_disk cfg (insertDocument cfg c d w)"
    by (rule insertDocument_on_disk)
  have 6: "find_toArray c (matches flt) (db w) \<noteq> []
        \<longrightarrow> journal_on_disk cfg (updateDocuments cfg c flt u w)"
    using updateDocuments_on_disk by blast
  have 7: "actions (migrationLog (insertDocument cfg c d w))
       = actions (migrationLog w)
         @ [\<lparr>collection = c, action = ''insert'', status = ''dryRun'', a_id = None,
             document = Some (BObj d), previous = None, update = None, error = None\<rparr>]"
    using assms by (simp add: insertDocument_dry)
  show ?thesis using 1 2 3 4 5 6 7 by blast
qed

text \<open>A previewed update of the example store: nothing changes, two entries are written.\<close>

theorem dry_run_witness:
  "dryRun (example_config True)
   \<and> db (updateDocuments (example_config True) ''z'' old_filter new_update (example_world []))
       = db (example_world [])
   \<and> map status (actions (migrationLog
        (updateDocuments (example_config True) ''z'' old_filter new_update (example_world []))))
       = [''dryRun'', ''dryRun'']
   \<and> map a_id (actions (migrationLog
        (updateDocuments (example_config True) ''z'' old_filter new_update (example_world []))))
       = [Some (BOid ''aaaaaaaaaaaaaaaaaaaaaaaa''), Some (BOid ''bbbbbbbbbbbbbbbbbbbbbbbb'')]
   \<and> find_toArray ''z'' (matches old_filter) (db (example_world [])) \<noteq> []
   \<and> journal_on_disk (example_config True)
        (updateDocuments (example_config True) ''z'' old_filter new_update (example_world []))"
  using dry_run_leaves_store_and_journals_each
    [where cfg = "example_config True" and c = "''z''" and flt = old_filter and u = new_update
       and w = "example_world []"]
  by (simp add: comp_def) (simp add: doc_a_def doc_b_def doc_id_def)

subsection \<open>A write that fails\<close>

lemma length_update_results [simp]: "length (update_results c u ds s) = length ds"
  by (induction ds arbitrary: s) (simp_all split: prod.splits)

text \<open>
  C6. Without the dry-run flag, \<open>updateDocuments\<close> writes one entry for every document
  that \<open>find\<close> returned, in that order and with that document's identifier, whatever the
  store answers: the entry has status \<open>error\<close> and the error text exactly where the call of
  \<open>updateOne\<close> for that document raised, and status \<open>success\<close> with the previous content
  everywhere else. A failure neither ends the loop nor shows in another document's entry.
  When \<open>find\<close> returned a document, the file of the run holds the journal at the end.
\<close>

theorem failed_update_is_recorded_and_loop_goes_on:
  assumes "\<not> dryRun cfg"
  shows "(\<exists>es. actions (migrationLog (updateDocuments cfg c flt u w)) = actions (migrationLog w) @ es
      \<and> length es = length (find_toArray c (matches flt) (db w))
      \<and> map a_id es = map doc_id (find_toArray c (matches flt) (db w))
      \<and> map error es
          = map (\<lambda>r. case r of Inl e \<Rightarrow> Some e | Inr n \<Rightarrow> None)
              (update_results c u (find_toArray c (matches flt) (db w)) (db w))
      \<and> map status es
          = map (\<lambda>r. case r of Inl e \<Rightarrow> ''error'' | Inr n \<Rightarrow> ''success'')
              (update_results c u (find_toArray c (matches flt) (db w)) (db w))
      \<and> list_all (\<lambda>e. action e = ''update'' \<and> collection e = c
                       \<and> (previous e \<noteq> None \<longleftrightarrow> status e = ''success'')) es)
   \<and> (find_toArray c (matches flt) (db w) \<noteq> []
        \<longrightarrow> journal_on_disk cfg (updateDocuments cfg c flt u w))"
proof -
  from apply_updates_actions [of cfg c u "find_toArray c (matches flt) (db w)" w]
  obtain es where es:
    "actions (migrationLog (apply_updates cfg c u (find_toArray c (matches flt) (db w)) w))
       = actions (migrationLog w) @ es"
    "map a_id es = map doc_id (find_toArray c (matches flt) (db w))"
    "map error es = map (\<lambda>r. case r of Inl e \<Rightarrow> Some e | Inr n \<Rightarrow> None)
        (update_results c u (find_toArray c (matches flt) (db w)) (db w))"
    "map status es = map (\<lambda>r. case r of Inl e \<Rightarrow> ''error'' | Inr n \<Rightarrow> ''success'')
        (update_results c u (find_toArray c (matches flt) (db w)) (db w))"
    "list_all (\<lambda>e. action e = ''update'' \<and> collection e = c
                       \<and> (previous e \<noteq> None \<longleftrightarrow> status e = ''success'')) es"
    by blast
  have "length es = length (find_toArray c (matches flt) (db w))"
    using es(2) by (metis length_map)
  with es assms have "\<exists>es. actions (migrationLog (updateDocuments cfg c flt u w))
        = actions (migrationLog w) @ es
      \<and> length es = length (find_toArray c (matches flt) (db w))
      \<and> map a_id es = map doc_id (find_toArray c (matches flt) (db w))
      \<and> map error es
          = map (\<lambda>r. case r of Inl e \<Rightarrow> Some e | Inr n \<Rightarrow> None)
              (update_results c u (find_toArray c (matches flt) (db w)) (db w))
      \<and> map status es
          = map (\<lambda>r. case r of Inl e \<Rightarrow> ''error'' | Inr n \<Rightarrow> ''success'')
              (update_results c u (find_toArray c (matches flt) (db w)) (db w))
      \<and> list_all (\<lambda>e. action e = ''update'' \<and> collection e = c
                       \<and> (previous e \<noteq> None \<longleftrightarrow> status e = ''success'')) es"
    by (auto simp: updateDocuments_def)
  then show ?thesis using updateDocuments_on_disk by blast
qed

lemma example_update_results:
  "update_results ''z'' new_update [doc_a, doc_b] (db (example_world [True, False]))
     = [Inl unavailable, Inr 1]"
  by code_simp

text \<open>The first write fails, the second is answered: an error entry, then a success entry.\<close>

theorem failed_update_witness:
  "\<not> dryRun (example_config False)
   \<and> map status (actions (migrationLog
        (updateDocuments (example_config False) ''z'' old_filter new_update
           (example_world [True, False]))))
       = [''error'', ''success'']
   \<and> map error (actions (migrationLog
        (updateDocuments (example_config False) ''z'' old_filter new_update
           (example_world [True, False]))))
       = [Some unavailable, None]
   \<and> map a_id (actions (migrationLog
        (updateDocuments (example_config False) ''z'' old_filter new_update
           (example_world [True, False]))))
       = [doc_id doc_a, doc_id doc_b]
   \<and> find_toArray ''z'' (matches old_filter) (db (example_world [True, False])) \<noteq> []
   \<and> journal_on_disk (example_config False)
        (updateDocuments (example_config False) ''z'' old_filter new_update
           (example_world [True, False]))"
proof -
  have nd: "\<not> dryRun (example_config False)" by simp
  note t = failed_update_is_recorded_and_loop_goes_on
      [OF nd, where c = "''z''" and flt = old_filter and u = new_update
         and w = "example_world [True, False]"]
  have "\<exists>es. actions (migrationLog (updateDocuments (example_config False) ''z'' old_filter
              new_update (example_world [True, False]))) = es
      \<and> map a_id es = map doc_id [doc_a, doc_b]
      \<and> map error es
          = map (\<lambda>r. case r of Inl e \<Rightarrow> Some e | Inr n \<Rightarrow> None) [Inl unavailable, Inr 1]
      \<and> map status es
          = map (\<lambda>r. case r of Inl e \<Rightarrow> ''error'' | Inr n \<Rightarrow> ''success'')
              [Inl unavailable, Inr 1]"
    using t [THEN conjunct1]
    unfolding find_example example_update_results example_world_actions by auto
  moreover have "journal_on_disk (example_config False)
        (updateDocuments (example_config False) ''z'' old_filter new_update
           (example_world [True, False]))"
    using t [THEN conjunct2] by simp
  ultimately show ?thesis using nd by auto
qed

section \<open>Properties of the undo script\<close>

subsection \<open>A journal that is missing\<close>

text \<open>
  C5. When no journal file exists for the tag, the undo script ends with exit code 1
  without calling \<open>connectToDBUndo\<close> and without touching the store; for a tag that is
  not empty the one line it prints reports the missing file.
\<close>

theorem missing_journal_stops_undo:
  assumes "fs (FILE_PATH cfg t) = None"
  shows "exit_code (undo_script cfg (Some t) FILTER_ID fs s) = 1
       \<and> connections (undo_script cfg (Some t) FILTER_ID fs s) = 0
       \<and> store_after (undo_script cfg (Some t) FILTER_ID fs s) = s
       \<and> logged (undo_script cfg (Some t) FILTER_ID fs s) = []
       \<and> (t \<noteq> [] \<longrightarrow> console (undo_script cfg (Some t) FILTER_ID fs s)
                         = [''Migration file not found: '' @ FILE_PATH cfg t])"
  using assms by (simp add: undo_script_def)

text \<open>The undo script called for a tag when no file has been written at all.\<close>

theorem missing_journal_witness:
  "Map.empty (FILE_PATH (example_config False) ''2024-01-02T03_04_05_678Z'') = None
   \<and> exit_code (undo_script (example_config False) (Some ''2024-01-02T03_04_05_678Z'') None
        Map.empty (example_store [])) = 1
   \<and> connections (undo_script (example_config False) (Some ''2024-01-02T03_04_05_678Z'') None
        Map.empty (example_store [])) = 0
   \<and> console (undo_script (example_config False) (Some ''2024-01-02T03_04_05_678Z'') None
        Map.empty (example_store []))
       = [''Migration file not found: migrations/migration_2024-01-02T03_04_05_678Z.json'']"
  using missing_journal_stops_undo
    [where fs = Map.empty and cfg = "example_config False" and t = "''2024-01-02T03_04_05_678Z''"
       and FILTER_ID = None and s = "example_store []"]
  by (simp add: FILE_PATH_def path_join_def example_config_def)

subsection \<open>An update entry without previous content\<close>

text \<open>
  C10, as the script has it. An entry that records a successful update and whose
  \<open>previous\<close> is missing or falsy (\<open>null\<close>, \<open>false\<close>, 0, the empty string) is passed
  over: the turn of the loop leaves the store as it is, without calling it, and logs
  nothing, no error either.
\<close>

theorem update_without_previous_is_skipped:
  assumes "action a = ''update''" and "status a = ''success''" and "\<not> truthy (previous a)"
  shows "undo_action a (s, lg) = (s, lg)"
  using assms by (simp add: undo_action_def undo_insert_def undo_update_def)

text \<open>An entry of a successful update with no \<open>previous\<close> at all, on the example store.\<close>

theorem update_without_previous_witness:
  "action (empty_previous\<lparr>previous := None\<rparr>) = ''update''
   \<and> status (empty_previous\<lparr>previous := None\<rparr>) = ''success''
   \<and> \<not> truthy (previous (empty_previous\<lparr>previous := None\<rparr>))
   \<and> undo_action (empty_previous\<lparr>previous := None\<rparr>) (example_store [], [])
       = (example_store [], [])"
  using update_without_previous_is_skipped
    [where a = "empty_previous\<lparr>previous := None\<rparr>" and s = "example_store []" and lg = "[]"]
  by (simp add: empty_previous_def)


text \<open>
  C10, as it is worded (an absent or empty previous content is skipped), fails for the
  empty document: \<open>{}\<close> is truthy, the guard lets it through, and \<open>replaceOne\<close> replaces
  the content of the document by nothing but its \<open>_id\<close>.
\<close>

theorem empty_previous_is_replayed:
  "action empty_previous = ''update'' \<and> status empty_previous = ''success''
   \<and> previous empty_previous = Some (JObj [])
   \<and> colls (example_store []) ''z'' = [doc_a, doc_b, doc_c]
   \<and> colls (fst (undo_action empty_previous (example_store [], []))) ''z''
       = [[(''_id'', BOid ''aaaaaaaaaaaaaaaaaaaaaaaa'')], doc_b, doc_c]"
  by code_simp

subsection \<open>Undo restricted to one identifier\<close>

lemma other_docs_remove_first:
  "\<forall>d. p d \<longrightarrow> (\<exists>h\<in>set hs. doc_id d = Some (BOid h))
   \<Longrightarrow> other_docs hs (remove_first p ds) = other_docs hs ds"
  by (induction ds) (auto simp: other_docs_def)

lemma other_docs_replace_first:
  "\<forall>d. p d \<longrightarrow> (\<exists>h\<in>set hs. doc_id d = Some (BOid h))
   \<Longrightarrow> \<exists>h\<in>set hs. doc_id y = Some (BOid h)
   \<Longrightarrow> other_docs hs (replace_first p y ds) = other_docs hs ds"
  by (induction ds) (auto simp: other_docs_def)

lemma doc_id_replacement_of:
  "doc_id d = Some i \<Longrightarrow> doc_id (replacement_of d kvs) = Some i"
  by (simp add: replacement_of_def doc_id_def)

lemma find_Some_D: "List.find p xs = Some x \<Longrightarrow> p x"
  by (induction xs) (auto split: if_splits)

lemma by_oid_target:
  "by_oid r d \<Longrightarrow> \<forall>h. r = Hex h \<longrightarrow> h \<in> set hs \<Longrightarrow> \<exists>h\<in>set hs. doc_id d = Some (BOid h)"
  by (cases r) auto

lemma next_fault_colls: "colls (snd (next_fault s)) = colls s"
  by (simp add: next_fault_def split: list.splits)

lemma deleteOne_other_docs:
  assumes "\<forall>h. r = Hex h \<longrightarrow> h \<in> set hs"
  shows "other_docs hs (colls (snd (deleteOne c (by_oid r) s)) c') = other_docs hs (colls s c')"
proof -
  obtain f s1 where f: "next_fault s = (f, s1)" by (cases "next_fault s")
  then have c1: "colls s1 = colls s" using next_fault_colls [of s] by simp
  have "other_docs hs (remove_first (by_oid r) ds) = other_docs hs ds" for ds
    by (rule other_docs_remove_first) (use assms by_oid_target in blast)
  then show ?thesis
    using f c1 by (simp add: deleteOne_def)
qed

lemma replaceOne_other_docs:
  assumes "\<forall>h. r = Hex h \<longrightarrow> h \<in> set hs"
  shows "other_docs hs (colls (snd (replaceOne c (by_oid r) v s)) c') = other_docs hs (colls s c')"
proof -
  obtain f s1 where f: "next_fault s = (f, s1)" by (cases "next_fault s")
  then have c1: "colls s1 = colls s" using next_fault_colls [of s] by simp
  have *: "other_docs hs (replace_first (by_oid r) (replacement_of d kvs) ds) = other_docs hs ds"
    if bd: "by_oid r d" for d kvs ds
  proof (rule other_docs_replace_first)
    show "\<forall>d'. by_oid r d' \<longrightarrow> (\<exists>h\<in>set hs. doc_id d' = Some (BOid h))"
      using assms by_oid_target by blast
    obtain h where "h \<in> set hs" "doc_id d = Some (BOid h)"
      using bd assms by_oid_target by blast
    then show "\<exists>h\<in>set hs. doc_id (replacement_of d kvs) = Some (BOid h)"
      using doc_id_replacement_of by blast
  qed
  show ?thesis
  proof (cases "hasAtomicOperators v \<or> f")
    case True
    then show ?thesis using f c1 by (auto simp: replaceOne_def)
  next
    case False
    show ?thesis
    proof (cases v)
      case (BObj kvs)
      show ?thesis
      proof (cases "List.find (by_oid r) (colls s1 c)")
        case None
        then show ?thesis using False f c1 BObj by (simp add: replaceOne_def)
      next
        case (Some d)
        then have "by_oid r d" by (rule find_Some_D)
        then show ?thesis
          using False f c1 BObj Some * [of d kvs "colls s c"] by (simp add: replaceOne_def)
      qed
    qed (use False f c1 in \<open>simp_all add: replaceOne_def\<close>)
  qed
qed

lemma undo_insert_other_docs:
  assumes "\<forall>h. ObjectId (a_id a) = Hex h \<longrightarrow> h \<in> set hs"
  shows "other_docs hs (colls (fst (snd (undo_insert a (s, lg)))) c) = other_docs hs (colls s c)"
proof (cases "action a = ''insert'' \<and> status a = ''success''")
  case False
  then show ?thesis by (auto simp: undo_insert_def)
next
  case True
  obtain x s' where x: "deleteOne (collection a) (by_oid (ObjectId (a_id a))) s = (x, s')"
    by (cases "deleteOne (collection a) (by_oid (ObjectId (a_id a))) s")
  have d: "other_docs hs (colls s' c) = other_docs hs (colls s c)"
    using deleteOne_other_docs [of "ObjectId (a_id a)" hs "collection a" s c] assms x by simp
  show ?thesis
    using True x d
    by (cases "ObjectId (a_id a)"; cases x) (simp_all add: undo_insert_def)
qed

lemma undo_update_other_docs:
  assumes "\<forall>h. ObjectId (a_id a) = Hex h \<longrightarrow> h \<in> set hs"
  shows "other_docs hs (colls (fst (snd (undo_update a (s, lg)))) c) = other_docs hs (colls s c)"
proof (cases "action a = ''update'' \<and> status a = ''success'' \<and> truthy (previous a)")
  case False
  then show ?thesis by (auto simp: undo_update_def)
next
  case True
  obtain x s' where x:
    "replaceOne (collection a) (by_oid (ObjectId (a_id a))) (of_json (the (previous a))) s = (x, s')"
    by (cases "replaceOne (collection a) (by_oid (ObjectId (a_id a))) (of_json (the (previous a))) s")
  have d: "other_docs hs (colls s' c) = other_docs hs (colls s c)"
    using replaceOne_other_docs
      [of "ObjectId (a_id a)" hs "collection a" "of_json (the (previous a))" s c] assms x
    by simp
  show ?thesis
    using True x d
    by (cases "ObjectId (a_id a)"; cases x) (simp_all add: undo_update_def)
qed

lemma undo_action_other_docs:
  assumes "\<forall>h. ObjectId (a_id a) = Hex h \<longrightarrow> h \<in> set hs"
  shows "other_docs hs (colls (fst (undo_action a (s, lg))) c) = other_docs hs (colls s c)"
proof -
  obtain e1 s1 lg1 where 1: "undo_insert a (s, lg) = (e1, s1, lg1)"
    by (cases "undo_insert a (s, lg)")
  obtain e2 s2 lg2 where 2: "undo_update a (s1, lg1) = (e2, s2, lg2)"
    by (cases "undo_update a (s1, lg1)")
  have a: "other_docs hs (colls s1 c) = other_docs hs (colls s c)"
    using undo_insert_other_docs [OF assms, where s = s and lg = lg and c = c] 1 by simp
  have b: "other_docs hs (colls s2 c) = other_docs hs (colls s1 c)"
    using undo_update_other_docs [OF assms, where s = s1 and lg = lg1 and c = c] 2 by simp
  show ?thesis
    using 1 2 a b by (cases e1; cases e2) (simp_all add: undo_action_def)
qed

lemma undo_loop_other_docs:
  assumes "\<forall>a\<in>set as. \<forall>h. ObjectId (a_id a) = Hex h \<longrightarrow> h \<in> set hs"
  shows "other_docs hs (colls (fst (undo_loop as st)) c) = other_docs hs (colls (fst st) c)"
  using assms
proof (induction as arbitrary: st)
  case Nil
  show ?case by simp
next
  case (Cons a as)
  have "other_docs hs (colls (fst (undo_action a (fst st, snd st))) c)
          = other_docs hs (colls (fst st) c)"
    by (rule undo_action_other_docs) (use Cons.prems in auto)
  then have "other_docs hs (colls (fst (undo_action a st)) c) = other_docs hs (colls (fst st) c)"
    by simp
  moreover have "other_docs hs (colls (fst (undo_loop as (undo_action a st))) c)
                   = other_docs hs (colls (fst (undo_action a st)) c)"
    using Cons.IH Cons.prems by simp
  ultimately show ?case by simp
qed

lemma named_ids_iff: "h \<in> set (named_ids as) \<longleftrightarrow> (\<exists>a\<in>set as. ObjectId (a_id a) = Hex h)"
  by (induction as) (auto simp: named_ids_def split: oid_result.splits)

lemma by_oid_other_docs:
  "h' \<notin> set hs \<Longrightarrow> filter (by_oid (Hex h')) (other_docs hs ds) = filter (by_oid (Hex h')) ds"
  by (induction ds) (auto simp: other_docs_def)

text \<open>
  C7, as the script has it. With an identifier argument the loop runs over exactly the
  recorded actions whose \<open>_id\<close>, as a string, equals the argument, in their recorded
  order; without the argument it runs over all of them. In every collection, every
  document whose identifier is none of those that \<open>new ObjectId\<close> names for these
  actions is left as it was, at its place; so the document of every recorded action
  that names another identifier than these is not reverted.
\<close>

theorem filtered_undo_touches_named_identifiers:
  assumes "f \<noteq> []"
  shows "candidates (Some f) (actions migrationData)
           = filter (\<lambda>a. js_String (a_id a) = f) (actions migrationData)
       \<and> candidates None (actions migrationData) = actions migrationData
       \<and> (case undoMigration t (Some f) migrationData s of
             Inl err \<Rightarrow> \<not> reachable s
           | Inr (s', lg) \<Rightarrow>
               s' = fst (undo_loop (filter (\<lambda>a. js_String (a_id a) = f) (actions migrationData))
                           (s, [start_line t (Some f)]))
               \<and> (\<forall>c. other_docs
                          (named_ids (filter (\<lambda>a. js_String (a_id a) = f) (actions migrationData)))
                          (colls s' c)
                        = other_docs
                            (named_ids (filter (\<lambda>a. js_String (a_id a) = f) (actions migrationData)))
                            (colls s c))
               \<and> (\<forall>a\<in>set (actions migrationData). \<forall>h.
                     ObjectId (a_id a) = Hex h
                     \<and> h \<notin> set (named_ids
                                   (filter (\<lambda>a. js_String (a_id a) = f) (actions migrationData)))
                     \<longrightarrow> filter (by_oid (Hex h)) (colls s' (collection a))
                           = filter (by_oid (Hex h)) (colls s (collection a))))"
proof -
  define st0 where "st0 = (s, [start_line t (Some f)])"
  define sel where "sel = filter (\<lambda>a. js_String (a_id a) = f) (actions migrationData)"
  have o: "other_docs (named_ids sel) (colls (fst (undo_loop sel st0)) c)
        = other_docs (named_ids sel) (colls s c)" for c
  proof -
    have "other_docs (named_ids sel) (colls (fst (undo_loop sel st0)) c)
        = other_docs (named_ids sel) (colls (fst st0) c)"
      by (rule undo_loop_other_docs) (use named_ids_iff in blast)
    then show ?thesis by (simp add: st0_def)
  qed
  have o': "filter (by_oid (Hex h)) (colls (fst (undo_loop sel st0)) c)
              = filter (by_oid (Hex h)) (colls s c)" if "h \<notin> set (named_ids sel)" for h c
    using by_oid_other_docs [OF that, of "colls (fst (undo_loop sel st0)) c"]
      by_oid_other_docs [OF that, of "colls s c"] o [of c]
    by simp
  have c: "candidates (Some f) (actions migrationData) = sel"
    using assms by (simp add: candidates_def sel_def)
  obtain s' lg where l: "undo_loop sel st0 = (s', lg)"
    by (cases "undo_loop sel st0")
  have u: "undoMigration t (Some f) migrationData s
             = (if \<not> reachable s then Inl unavailable else Inr (s', lg @ [Info ''Undo complete.'']))"
    using assms l unfolding undoMigration_def c by (simp add: st0_def)
  show ?thesis
    using c o o' l u unfolding sel_def [symmetric] st0_def [symmetric]
    by (auto simp: candidates_def)
qed

text \<open>The journal written by hand, undone for the first identifier only.\<close>

lemma crafted_filtered_undo:
  "case undoMigration ''2024-01-02T03_04_05_678Z'' (Some ''aaaaaaaaaaaaaaaaaaaaaaaa'')
          crafted_journal (example_store []) of
     Inl err \<Rightarrow> False
   | Inr (s', lg) \<Rightarrow> colls s' ''z'' = [doc_b, doc_c]"
  by code_simp

lemma crafted_named_ids:
  "named_ids (filter (\<lambda>a. js_String (a_id a) = ''aaaaaaaaaaaaaaaaaaaaaaaa'') (actions crafted_journal))
     = [''aaaaaaaaaaaaaaaaaaaaaaaa'']"
  by code_simp

text \<open>
  Undo for the identifier of the first document deletes that document and leaves the
  two others, for which actions are recorded too, as they were.
\<close>

theorem filtered_undo_witness:
  "''aaaaaaaaaaaaaaaaaaaaaaaa'' \<noteq> []
   \<and> (case undoMigration ''2024-01-02T03_04_05_678Z'' (Some ''aaaaaaaaaaaaaaaaaaaaaaaa'')
             crafted_journal (example_store []) of
         Inl err \<Rightarrow> False
       | Inr (s', lg) \<Rightarrow>
           colls s' ''z'' = [doc_b, doc_c]
           \<and> other_docs [''aaaaaaaaaaaaaaaaaaaaaaaa''] (colls s' ''z'')
               = other_docs [''aaaaaaaaaaaaaaaaaaaaaaaa''] (colls (example_store []) ''z'')
           \<and> filter (by_oid (Hex ''bbbbbbbbbbbbbbbbbbbbbbbb'')) (colls s' ''z'') = [doc_b])"
proof -
  have n: "''aaaaaaaaaaaaaaaaaaaaaaaa'' \<noteq> []" by simp
  obtain s' lg where r:
    "undoMigration ''2024-01-02T03_04_05_678Z'' (Some ''aaaaaaaaaaaaaaaaaaaaaaaa'')
       crafted_journal (example_store []) = Inr (s', lg)"
    "colls s' ''z'' = [doc_b, doc_c]"
    using crafted_filtered_undo by (auto split: sum.splits prod.splits)
  have "\<forall>c. other_docs [''aaaaaaaaaaaaaaaaaaaaaaaa''] (colls s' c)
          = other_docs [''aaaaaaaaaaaaaaaaaaaaaaaa''] (colls (example_store []) c)"
    using filtered_undo_touches_named_identifiers
      [OF n, where migrationData = crafted_journal and t = "''2024-01-02T03_04_05_678Z''"
         and s = "example_store []"]
    unfolding r(1) crafted_named_ids by (simp only: sum.case prod.case) blast
  then have "other_docs [''aaaaaaaaaaaaaaaaaaaaaaaa''] (colls s' ''z'')
          = other_docs [''aaaaaaaaaaaaaaaaaaaaaaaa''] (colls (example_store []) ''z'')"
    by blast
  moreover have "filter (by_oid (Hex ''bbbbbbbbbbbbbbbbbbbbbbbb'')) [doc_b, doc_c] = [doc_b]"
    by (simp add: doc_b_def doc_c_def doc_id_def)
  ultimately show ?thesis using r by simp
qed

text \<open>
  C7, as it is worded (every recorded action with a different identifier is left
  un-reverted), fails where two recorded identifiers that differ as strings name the
  same \<open>ObjectId\<close>. The first entry's \<open>_id\<close> is an object, which prints as
  \<open>[object Object]\<close>, and \<open>new ObjectId\<close> reads its \<open>id\<close>; the second entry's \<open>_id\<close>
  is the string of the same digits. Undo for \<open>[object Object]\<close> selects the first
  entry only and deletes the document that the second entry records.
\<close>

theorem object_identifier_names_other_document:
  "js_String (a_id object_id_insert) = ''[object Object]''
   \<and> js_String (a_id string_id_insert) \<noteq> ''[object Object]''
   \<and> ObjectId (a_id string_id_insert) = Hex ''bbbbbbbbbbbbbbbbbbbbbbbb''
   \<and> doc_id doc_b = Some (BOid ''bbbbbbbbbbbbbbbbbbbbbbbb'')
   \<and> colls (example_store []) ''z'' = [doc_a, doc_b, doc_c]
   \<and> exit_code (undo_script (example_config False) (Some ''2024-01-02T03_04_05_678Z'')
        (Some ''[object Object]'') object_id_files (example_store [])) = 0
   \<and> colls (store_after (undo_script (example_config False) (Some ''2024-01-02T03_04_05_678Z'')
        (Some ''[object Object]'') object_id_files (example_store []))) ''z'' = [doc_a, doc_c]"
  by code_simp

subsection \<open>Undo, document by document\<close>

text \<open>
  When the store answers and no collection has an identifier twice, a turn of the loop
  acts on every document on its own, as \<open>undo_doc\<close> says.
\<close>

lemma remove_first_distinct:
  "distinct (map f xs) \<Longrightarrow>
   remove_first (\<lambda>x. f x = v) xs = List.map_filter (\<lambda>x. if f x = v then None else Some x) xs"
proof (induction xs)
  case Nil
  show ?case by simp
next
  case (Cons x xs)
  show ?case
  proof (cases "f x = v")
    case True
    then have "\<forall>y\<in>set xs. f y \<noteq> v" using Cons.prems by (auto simp: image_iff)
    then have "List.map_filter (\<lambda>x. if f x = v then None else Some x) xs = xs"
      by (induction xs) simp_all
    with True show ?thesis by simp
  next
    case False
    with Cons show ?thesis by simp
  qed
qed

lemma replace_first_distinct:
  "distinct (map f xs) \<Longrightarrow>
   replace_first (\<lambda>x. f x = v) y xs = List.map_filter (\<lambda>x. if f x = v then Some y else Some x) xs"
proof (induction xs)
  case Nil
  show ?case by simp
next
  case (Cons x xs)
  show ?case
  proof (cases "f x = v")
    case True
    then have "\<forall>y\<in>set xs. f y \<noteq> v" using Cons.prems by (auto simp: image_iff)
    then have "List.map_filter (\<lambda>x. if f x = v then Some y else Some x) xs = xs"
      by (induction xs) simp_all
    with True show ?thesis by simp
  next
    case False
    with Cons show ?thesis by simp
  qed
qed

lemma map_filter_Some [simp]: "List.map_filter Some xs = xs"
  by (induction xs) simp_all

lemma map_filter_cong_set:
  "(\<And>x. x \<in> set xs \<Longrightarrow> f x = g x) \<Longrightarrow> List.map_filter f xs = List.map_filter g xs"
  by (induction xs) (simp_all split: option.splits)

lemma map_filter_comp:
  "List.map_filter g (List.map_filter f xs)
     = List.map_filter (\<lambda>x. case f x of None \<Rightarrow> None | Some y \<Rightarrow> g y) xs"
  by (induction xs) (simp_all split: option.splits)

lemma distinct_map_filter_key:
  "distinct (map k xs) \<Longrightarrow> (\<And>x y. f x = Some y \<Longrightarrow> k y = k x)
   \<Longrightarrow> distinct (map k (List.map_filter f xs))"
proof (induction xs)
  case Nil
  show ?case by simp
next
  case (Cons x xs)
  have sub: "k ` set (List.map_filter f xs) \<subseteq> k ` set xs"
  proof
    fix v assume "v \<in> k ` set (List.map_filter f xs)"
    then obtain y where "y \<in> set (List.map_filter f xs)" "v = k y" by auto
    then obtain x' where "x' \<in> set xs" "f x' = Some y"
      by (auto simp: List.map_filter_def)
    then show "v \<in> k ` set xs" using Cons.prems(2) \<open>v = k y\<close> by force
  qed
  show ?case
  proof (cases "f x")
    case None
    with Cons show ?thesis by simp
  next
    case (Some y)
    have "k y = k x" using Cons.prems(2) Some by simp
    moreover have "k x \<notin> k ` set xs" using Cons.prems(1) by simp
    ultimately have "k y \<notin> k ` set (List.map_filter f xs)" using sub by auto
    with Cons Some show ?thesis by simp
  qed
qed

lemma remove_first_none [simp]: "remove_first (\<lambda>x. False) xs = xs"
  by (induction xs) simp_all

lemma replace_first_none [simp]: "replace_first (\<lambda>x. False) y xs = xs"
  by (induction xs) simp_all

lemma by_oid_cases:
  "by_oid r = (\<lambda>d. False) \<or> (\<exists>h. by_oid r = (\<lambda>d. doc_id d = Some (BOid h)))"
  by (cases r) (auto simp: fun_eq_iff)

lemma remove_first_by_oid:
  assumes "distinct (map doc_id xs)"
  shows "remove_first (by_oid r) xs
           = List.map_filter (\<lambda>d. if by_oid r d then None else Some d) xs"
  using by_oid_cases [of r] remove_first_distinct [OF assms] by auto

lemma replace_first_by_oid:
  assumes "distinct (map doc_id xs)"
  shows "replace_first (by_oid r) y xs
           = List.map_filter (\<lambda>d. if by_oid r d then Some y else Some d) xs"
  using by_oid_cases [of r] replace_first_distinct [OF assms] by auto

lemma by_oid_same_id: "by_oid r d \<Longrightarrow> by_oid r d' \<Longrightarrow> doc_id d' = doc_id d"
  by (cases r) auto

lemma by_oid_id_cong: "doc_id d' = doc_id d \<Longrightarrow> by_oid r d' = by_oid r d"
  by (cases r) auto

lemma replacement_of_id_cong: "doc_id d' = doc_id d \<Longrightarrow> replacement_of d' kvs = replacement_of d kvs"
  by (simp add: replacement_of_def)

lemma find_None_D: "List.find p xs = None \<Longrightarrow> x \<in> set xs \<Longrightarrow> \<not> p x"
  by (induction xs) (auto split: if_splits)

lemma next_fault_answering:
  "answering s \<Longrightarrow> next_fault s = (False, snd (next_fault s))
     \<and> colls (snd (next_fault s)) = colls s \<and> answering (snd (next_fault s))
     \<and> reachable (snd (next_fault s)) = reachable s"
  by (cases "faults s") (auto simp: next_fault_def answering_def)

lemma undo_insert_pointwise:
  assumes "answering s" and "distinct (map doc_id (colls s c))"
    and "action a = ''insert'' \<and> status a = ''success''"
  shows "colls (fst (snd (undo_insert a (s, lg)))) c = List.map_filter (undo_doc a c) (colls s c)
       \<and> answering (fst (snd (undo_insert a (s, lg))))
       \<and> reachable (fst (snd (undo_insert a (s, lg)))) = reachable s"
proof -
  obtain s1 where s1: "next_fault s = (False, s1)" "colls s1 = colls s" "answering s1"
      "reachable s1 = reachable s"
    using next_fault_answering [OF assms(1)] by metis
  have del: "deleteOne (collection a) p s
          = (Inr (if list_ex p (colls s (collection a)) then 1 else 0),
             s1\<lparr>colls := (colls s)(collection a := remove_first p (colls s (collection a)))\<rparr>)" for p
    using s1 by (simp add: deleteOne_def)
  have ud: "undo_doc a c
      = (\<lambda>d. if collection a = c \<and> by_oid (ObjectId (a_id a)) d then None else Some d)"
    using assms(3) by (auto simp: undo_doc_def fun_eq_iff)
  show ?thesis
  proof (cases "\<exists>e. ObjectId (a_id a) = Raises e")
    case True
    then show ?thesis using assms by (auto simp: undo_insert_def ud)
  next
    case False
    define s2 where "s2 = s1\<lparr>colls := (colls s)(collection a :=
                             remove_first (by_oid (ObjectId (a_id a))) (colls s (collection a)))\<rparr>"
    have "fst (snd (undo_insert a (s, lg))) = s2"
      using False assms(3) by (cases "ObjectId (a_id a)") (simp_all add: undo_insert_def del s2_def)
    moreover have "colls s2 c = List.map_filter (undo_doc a c) (colls s c)"
      using remove_first_by_oid [OF assms(2), of "ObjectId (a_id a)"]
      by (auto simp: s2_def ud)
    moreover have "answering s2" "reachable s2 = reachable s"
      using s1 by (simp_all add: s2_def answering_def)
    ultimately show ?thesis by simp
  qed
qed


lemma undo_insert_skip:
  "\<not> (action a = ''insert'' \<and> status a = ''success'') \<Longrightarrow> undo_insert a st = (None, st)"
  by (cases st) (auto simp: undo_insert_def)

lemma undo_update_skip:
  "\<not> (action a = ''update'' \<and> status a = ''success'' \<and> truthy (previous a))
   \<Longrightarrow> undo_update a st = (None, st)"
  by (cases st) (auto simp: undo_update_def)

lemma hasAtomicOperators_dollar_key: "hasAtomicOperators (BObj kvs) \<Longrightarrow> dollar_key kvs"
  by (cases kvs) (simp_all add: dollar_key_def)

lemma undo_update_pointwise:
  assumes "answering s" and "distinct (map doc_id (colls s c))"
    and "action a = ''update'' \<and> status a = ''success'' \<and> truthy (previous a)"
  shows "colls (fst (snd (undo_update a (s, lg)))) c = List.map_filter (undo_doc a c) (colls s c)
       \<and> answering (fst (snd (undo_update a (s, lg))))
       \<and> reachable (fst (snd (undo_update a (s, lg)))) = reachable s"
proof -
  obtain s1 where s1: "next_fault s = (False, s1)" "colls s1 = colls s" "answering s1"
      "reachable s1 = reachable s"
    using next_fault_answering [OF assms(1)] by metis
  define r where "r = ObjectId (a_id a)"
  define v where "v = of_json (the (previous a))"
  have ne: "action a \<noteq> ''insert''" using assms(3) by auto
  text \<open>where the store is not asked or refuses\<close>
  have same: ?thesis
    if "fst (snd (undo_update a (s, lg))) = s \<or> fst (snd (undo_update a (s, lg))) = s1"
      and "undo_doc a c = Some"
    using that s1 assms(1) by auto
  show ?thesis
  proof (cases "(\<exists>e. r = Raises e) \<or> (\<forall>kvs. v \<noteq> BObj kvs) \<or> (\<exists>kvs. v = BObj kvs \<and> dollar_key kvs)")
    case True
    have 1: "fst (snd (undo_update a (s, lg))) = s \<or> fst (snd (undo_update a (s, lg))) = s1"
      using True assms(3) s1
      by (cases r; cases v)
         (auto simp: undo_update_def replaceOne_def r_def [symmetric] v_def [symmetric])
    have 2: "undo_doc a c = Some"
      using True assms(3) ne
      by (cases r; cases v) (auto simp: undo_doc_def fun_eq_iff r_def [symmetric] v_def [symmetric])
    show ?thesis using same 1 2 by simp
  next
    case False
    then obtain kvs where kvs: "v = BObj kvs" "\<not> dollar_key kvs" and nr: "\<forall>e. r \<noteq> Raises e"
      by auto
    have na: "\<not> hasAtomicOperators (BObj kvs)"
      using kvs(2) hasAtomicOperators_dollar_key by blast
    have ud: "undo_doc a c
        = (\<lambda>d. if collection a = c \<and> by_oid r d
                    \<and> (map_of kvs ''_id'' = None \<or> map_of kvs ''_id'' = doc_id d)
                then Some (replacement_of d kvs) else Some d)"
      using assms(3) ne kvs
      by (auto simp: undo_doc_def fun_eq_iff r_def [symmetric] v_def [symmetric])
    show ?thesis
    proof (cases "List.find (by_oid r) (colls s (collection a))")
      case None
      have 1: "fst (snd (undo_update a (s, lg))) = s1"
        using None nr assms(3) kvs na s1
        by (cases r)
           (auto simp: undo_update_def replaceOne_def r_def [symmetric] v_def [symmetric])
      have "List.map_filter (undo_doc a c) (colls s c) = List.map_filter Some (colls s c)"
      proof (rule map_filter_cong_set)
        fix d assume d: "d \<in> set (colls s c)"
        have "\<not> by_oid r d" if "collection a = c"
          using find_None_D [OF None, of d] d that by simp
        then show "undo_doc a c d = Some d" by (auto simp: ud)
      qed
      then show ?thesis using 1 s1 by simp
    next
      case (Some d0)
      then have d0: "by_oid r d0" by (rule find_Some_D)
      show ?thesis
      proof (cases "map_of kvs ''_id'' \<noteq> None \<and> map_of kvs ''_id'' \<noteq> doc_id d0")
        case True
        have 1: "fst (snd (undo_update a (s, lg))) = s1"
          using Some True nr assms(3) kvs na s1
          by (cases r)
             (auto simp: undo_update_def replaceOne_def r_def [symmetric] v_def [symmetric])
        have "List.map_filter (undo_doc a c) (colls s c) = List.map_filter Some (colls s c)"
        proof (rule map_filter_cong_set)
          fix d assume "d \<in> set (colls s c)"
          show "undo_doc a c d = Some d"
            using True by_oid_same_id [OF d0] by (auto simp: ud)
        qed
        then show ?thesis using 1 s1 by simp
      next
        case False
        define s2 where "s2 = s1\<lparr>colls := (colls s)(collection a :=
             replace_first (by_oid r) (replacement_of d0 kvs) (colls s (collection a)))\<rparr>"
        have 1: "fst (snd (undo_update a (s, lg))) = s2"
          using Some False nr assms(3) kvs na s1
          by (cases r)
             (auto simp: undo_update_def replaceOne_def s2_def r_def [symmetric] v_def [symmetric])
        have 2: "colls s2 c = List.map_filter (undo_doc a c) (colls s c)"
        proof (cases "collection a = c")
          case nc: False
          then show ?thesis by (auto simp: s2_def ud)
        next
          case c: True
          have "replace_first (by_oid r) (replacement_of d0 kvs) (colls s c)
                  = List.map_filter (\<lambda>d. if by_oid r d then Some (replacement_of d0 kvs) else Some d)
                      (colls s c)"
            by (rule replace_first_by_oid [OF assms(2)])
          also have "\<dots> = List.map_filter (undo_doc a c) (colls s c)"
          proof (rule map_filter_cong_set)
            fix d assume "d \<in> set (colls s c)"
            show "(if by_oid r d then Some (replacement_of d0 kvs) else Some d) = undo_doc a c d"
            proof (cases "by_oid r d")
              case bd: True
              then have "doc_id d = doc_id d0" using by_oid_same_id [OF d0] by simp
              then show ?thesis
                using bd False c replacement_of_id_cong [of d d0 kvs] by (auto simp: ud)
            next
              case bd: False
              then show ?thesis by (simp add: ud)
            qed
          qed
          finally show ?thesis using c by (simp add: s2_def)
        qed
        have "answering s2" "reachable s2 = reachable s"
          using s1 by (simp_all add: s2_def answering_def)
        with 1 2 show ?thesis by simp
      qed
    qed
  qed
qed

lemma undo_doc_neither:
  "\<not> (action a = ''insert'' \<and> status a = ''success'')
   \<Longrightarrow> \<not> (action a = ''update'' \<and> status a = ''success'' \<and> truthy (previous a))
   \<Longrightarrow> undo_doc a c = Some"
  by (auto simp: undo_doc_def fun_eq_iff)

lemma undo_action_pointwise:
  assumes "answering s" and "distinct (map doc_id (colls s c))"
  shows "colls (fst (undo_action a (s, lg))) c = List.map_filter (undo_doc a c) (colls s c)
       \<and> answering (fst (undo_action a (s, lg)))
       \<and> reachable (fst (undo_action a (s, lg))) = reachable s"
proof (cases "action a = ''insert'' \<and> status a = ''success''")
  case True
  then have nu: "\<not> (action a = ''update'' \<and> status a = ''success'' \<and> truthy (previous a))"
    by auto
  obtain e s1 lg1 where 1: "undo_insert a (s, lg) = (e, s1, lg1)"
    by (cases "undo_insert a (s, lg)")
  have "fst (undo_action a (s, lg)) = s1"
    using 1 undo_update_skip [OF nu, of "(s1, lg1)"] by (cases e) (simp_all add: undo_action_def)
  then show ?thesis
    using undo_insert_pointwise [OF assms True, of lg] 1 by simp
next
  case False
  note ni = this
  have i: "undo_insert a (s, lg) = (None, s, lg)"
    using undo_insert_skip [OF ni] by simp
  show ?thesis
  proof (cases "action a = ''update'' \<and> status a = ''success'' \<and> truthy (previous a)")
    case True
    obtain e s1 lg1 where 1: "undo_update a (s, lg) = (e, s1, lg1)"
      by (cases "undo_update a (s, lg)")
    have "fst (undo_action a (s, lg)) = s1"
      using 1 i by (cases e) (simp_all add: undo_action_def)
    then show ?thesis
      using undo_update_pointwise [OF assms True, of lg] 1 by simp
  next
    case False
    have "undo_action a (s, lg) = (s, lg)"
      using i undo_update_skip [OF False, of "(s, lg)"] by (simp add: undo_action_def)
    then show ?thesis
      using assms undo_doc_neither [OF ni False] by simp
  qed
qed

lemma replacement_of_id: "doc_id d = Some i \<Longrightarrow> doc_id (replacement_of d kvs) = Some i"
  by (simp add: replacement_of_def doc_id_def)

lemma by_oid_has_id: "by_oid r d \<Longrightarrow> \<exists>i. doc_id d = Some i"
  by (cases r) auto

lemma undo_doc_keeps_id: "undo_doc a c d = Some e \<Longrightarrow> doc_id e = doc_id d"
  by (auto simp: undo_doc_def replacement_of_id split: if_splits bson.splits
           dest!: by_oid_has_id)

lemma undo_docs_keeps_id: "undo_docs as c d = Some e \<Longrightarrow> doc_id e = doc_id d"
proof (induction as arbitrary: d)
  case Nil
  then show ?case by simp
next
  case (Cons a as)
  then obtain d1 where "undo_doc a c d = Some d1" "undo_docs as c d1 = Some e"
    by (auto split: option.splits)
  then show ?case using Cons.IH undo_doc_keeps_id by metis
qed

lemma undo_doc_by_id:
  assumes "undo_doc a c d = Some e" and "doc_id d' = doc_id d"
  shows "(undo_doc a c d' = Some d' \<and> e = d) \<or> undo_doc a c d' = Some e"
  using assms by_oid_id_cong [OF assms(2), of "ObjectId (a_id a)"]
    replacement_of_id_cong [OF assms(2)]
  by (auto simp: undo_doc_def split: if_splits bson.splits)

lemma undo_docs_fixed: "undo_docs as c d = Some e \<Longrightarrow> undo_docs as c e = Some e"
proof (induction as arbitrary: d)
  case Nil
  then show ?case by simp
next
  case (Cons a as)
  then obtain d1 where d1: "undo_doc a c d = Some d1" "undo_docs as c d1 = Some e"
    by (auto split: option.splits)
  have "doc_id e = doc_id d"
    using d1 undo_doc_keeps_id undo_docs_keeps_id by metis
  from undo_doc_by_id [OF d1(1) this]
  show ?case
  proof
    assume "undo_doc a c e = Some e \<and> d1 = d"
    then show ?thesis using Cons.IH [OF d1(2)] by simp
  next
    assume "undo_doc a c e = Some d1"
    then show ?thesis using d1(2) by simp
  qed
qed

lemma undo_loop_pointwise:
  assumes "answering (fst st)" and "distinct (map doc_id (colls (fst st) c))"
  shows "colls (fst (undo_loop as st)) c = List.map_filter (undo_docs as c) (colls (fst st) c)
       \<and> answering (fst (undo_loop as st))
       \<and> reachable (fst (undo_loop as st)) = reachable (fst st)"
  using assms
proof (induction as arbitrary: st)
  case Nil
  have "undo_docs [] c = Some" by (simp add: fun_eq_iff)
  with Nil show ?case by simp
next
  case (Cons a as)
  obtain s lg where st: "st = (s, lg)" by (cases st)
  have 1: "colls (fst (undo_action a st)) c = List.map_filter (undo_doc a c) (colls (fst st) c)"
     "answering (fst (undo_action a st))"
     "reachable (fst (undo_action a st)) = reachable (fst st)"
    using undo_action_pointwise [of s c a lg] Cons.prems st by simp_all
  have 2: "distinct (map doc_id (colls (fst (undo_action a st)) c))"
    unfolding 1(1)
    by (rule distinct_map_filter_key [OF Cons.prems(2)]) (rule undo_doc_keeps_id)
  have 3: "undo_docs (a # as) c = (\<lambda>d. case undo_doc a c d of None \<Rightarrow> None | Some y \<Rightarrow> undo_docs as c y)"
    by (simp add: fun_eq_iff)
  show ?case
    using Cons.IH [OF 1(2) 2] 1 by (simp add: map_filter_comp 3 del: undo_docs.simps)
qed

lemma map_filter_fixed:
  "(\<And>x y. f x = Some y \<Longrightarrow> f y = Some y)
   \<Longrightarrow> List.map_filter f (List.map_filter f xs) = List.map_filter f xs"
  by (induction xs) (auto split: option.splits)

lemma undo_loop_twice:
  assumes "answering (fst st)" and "unique_ids (fst st)"
  shows "colls (fst (undo_loop as (fst (undo_loop as st), lg'))) = colls (fst (undo_loop as st))"
proof
  fix c
  have d: "distinct (map doc_id (colls (fst st) c))"
    using assms(2) by (simp add: unique_ids_def)
  have 1: "colls (fst (undo_loop as st)) c = List.map_filter (undo_docs as c) (colls (fst st) c)"
      "answering (fst (undo_loop as st))"
    using undo_loop_pointwise [OF assms(1) d] by simp_all
  have 2: "distinct (map doc_id (colls (fst (undo_loop as st)) c))"
    unfolding 1(1)
    by (rule distinct_map_filter_key [OF d]) (rule undo_docs_keeps_id)
  have "colls (fst (undo_loop as (fst (undo_loop as st), lg'))) c
          = List.map_filter (undo_docs as c) (colls (fst (undo_loop as st)) c)"
    using undo_loop_pointwise [of "(fst (undo_loop as st), lg')" c as] 1(2) 2 by simp
  also have "\<dots> = colls (fst (undo_loop as st)) c"
    unfolding 1(1) by (rule map_filter_fixed) (rule undo_docs_fixed)
  finally show "colls (fst (undo_loop as (fst (undo_loop as st), lg'))) c
                  = colls (fst (undo_loop as st)) c" .
qed

subsection \<open>Undo run twice\<close>

lemma next_fault_reachable: "reachable (snd (next_fault s)) = reachable s"
  by (simp add: next_fault_def split: list.splits)

lemma deleteOne_reachable: "reachable (snd (deleteOne c p s)) = reachable s"
proof -
  obtain f s1 where f: "next_fault s = (f, s1)" by (cases "next_fault s")
  then have "reachable s1 = reachable s" using next_fault_reachable [of s] by simp
  then show ?thesis using f by (simp add: deleteOne_def)
qed

lemma replaceOne_reachable: "reachable (snd (replaceOne c p v s)) = reachable s"
proof -
  obtain f s1 where f: "next_fault s = (f, s1)" by (cases "next_fault s")
  then have "reachable s1 = reachable s" using next_fault_reachable [of s] by simp
  then show ?thesis
    using f by (cases v) (simp_all add: replaceOne_def split: option.splits)
qed

lemma undo_insert_reachable: "reachable (fst (snd (undo_insert a (s, lg)))) = reachable s"
proof -
  obtain x s' where x: "deleteOne (collection a) (by_oid (ObjectId (a_id a))) s = (x, s')"
    by (cases "deleteOne (collection a) (by_oid (ObjectId (a_id a))) s")
  then have "reachable s' = reachable s"
    using deleteOne_reachable [of "collection a" "by_oid (ObjectId (a_id a))" s] by simp
  then show ?thesis
    using x by (cases "ObjectId (a_id a)"; cases x) (simp_all add: undo_insert_def)
qed

lemma undo_update_reachable: "reachable (fst (snd (undo_update a (s, lg)))) = reachable s"
proof -
  obtain x s' where x:
    "replaceOne (collection a) (by_oid (ObjectId (a_id a))) (of_json (the (previous a))) s = (x, s')"
    by (cases "replaceOne (collection a) (by_oid (ObjectId (a_id a))) (of_json (the (previous a))) s")
  then have "reachable s' = reachable s"
    using replaceOne_reachable
      [of "collection a" "by_oid (ObjectId (a_id a))" "of_json (the (previous a))" s]
    by simp
  then show ?thesis
    using x by (cases "ObjectId (a_id a)"; cases x) (simp_all add: undo_update_def)
qed

lemma undo_action_reachable: "reachable (fst (undo_action a (s, lg))) = reachable s"
proof -
  obtain e1 s1 lg1 where 1: "undo_insert a (s, lg) = (e1, s1, lg1)"
    by (cases "undo_insert a (s, lg)")
  obtain e2 s2 lg2 where 2: "undo_update a (s1, lg1) = (e2, s2, lg2)"
    by (cases "undo_update a (s1, lg1)")
  have "reachable s1 = reachable s"
    using undo_insert_reachable [of a s lg] 1 by simp
  moreover have "reachable s2 = reachable s1"
    using undo_update_reachable [of a s1 lg1] 2 by simp
  ultimately show ?thesis
    using 1 2 by (cases e1; cases e2) (simp_all add: undo_action_def)
qed

lemma undo_loop_reachable: "reachable (fst (undo_loop as st)) = reachable (fst st)"
proof (induction as arbitrary: st)
  case Nil
  show ?case by simp
next
  case (Cons a as)
  have "reachable (fst (undo_action a (fst st, snd st))) = reachable (fst st)"
    by (rule undo_action_reachable)
  with Cons.IH [of "undo_action a st"] show ?case by simp
qed

lemma undo_script_run:
  assumes "TAG_UNDO = Some t" and "t \<noteq> []" and "fs (FILE_PATH cfg t) = Some m"
    and "reachable s"
  shows "undo_script cfg TAG_UNDO F fs s
     = \<lparr>exit_code = 0, console = [],
        logged = snd (undo_loop (candidates F (actions m)) (s, [start_line t F]))
                 @ [Info ''Undo complete.''],
        store_after = fst (undo_loop (candidates F (actions m)) (s, [start_line t F])),
        connections = 1\<rparr>"
  using assms
  by (simp add: undo_script_def undoMigration_def split: prod.splits)

lemma undo_script_completed:
  assumes "exit_code (undo_script cfg TAG_UNDO F fs s) = 0"
  shows "\<exists>t m. TAG_UNDO = Some t \<and> t \<noteq> [] \<and> fs (FILE_PATH cfg t) = Some m \<and> reachable s"
  using assms
  by (auto simp: undo_script_def undoMigration_def split: if_splits option.splits)

text \<open>
  C3, as the script has it. Once the undo script has run to its end for a tag, running it
  again with the same arguments runs to its end as well, whatever the store answers: exit
  code 0, and the last line logged is the one after the loop, so no turn of the loop
  ends the pass. When the store answers every write of both runs (and keeps
  identifiers unique), the second run leaves every collection exactly as the first run
  left it.
\<close>

theorem second_undo_changes_nothing:
  assumes "exit_code (undo_script cfg TAG_UNDO FILTER_ID fs s) = 0"
  shows "exit_code (undo_script cfg TAG_UNDO FILTER_ID fs
                      (store_after (undo_script cfg TAG_UNDO FILTER_ID fs s))) = 0
       \<and> last (logged (undo_script cfg TAG_UNDO FILTER_ID fs
                      (store_after (undo_script cfg TAG_UNDO FILTER_ID fs s))))
           = Info ''Undo complete.''
       \<and> (answering s \<and> unique_ids s \<longrightarrow>
            colls (store_after (undo_script cfg TAG_UNDO FILTER_ID fs
                      (store_after (undo_script cfg TAG_UNDO FILTER_ID fs s))))
              = colls (store_after (undo_script cfg TAG_UNDO FILTER_ID fs s)))"
proof -
  obtain t m where run: "TAG_UNDO = Some t" "t \<noteq> []" "fs (FILE_PATH cfg t) = Some m"
      and r: "reachable s"
    using undo_script_completed [OF assms] by blast
  define as where "as = candidates FILTER_ID (actions m)"
  define st0 where "st0 = (s, [start_line t FILTER_ID])"
  define s1 where "s1 = fst (undo_loop as st0)"
  have first: "store_after (undo_script cfg TAG_UNDO FILTER_ID fs s) = s1"
    using undo_script_run [where F = FILTER_ID and cfg = cfg and fs = fs, OF run r]
    by (simp add: s1_def as_def st0_def)
  have r1: "reachable s1"
    using undo_loop_reachable [of as st0] r by (simp add: s1_def st0_def)
  define st1 where "st1 = (s1, [start_line t FILTER_ID])"
  have second: "undo_script cfg TAG_UNDO FILTER_ID fs s1
      = \<lparr>exit_code = 0, console = [], logged = snd (undo_loop as st1) @ [Info ''Undo complete.''],
         store_after = fst (undo_loop as st1), connections = 1\<rparr>"
    using undo_script_run [where F = FILTER_ID and cfg = cfg and fs = fs, OF run r1]
    by (simp add: as_def st1_def)
  have "colls (fst (undo_loop as st1)) = colls s1" if "answering s" "unique_ids s"
    using undo_loop_twice [of st0 as "snd st1"] that
    by (simp add: s1_def st1_def st0_def)
  then show ?thesis
    unfolding first second by simp
qed

lemma example_answering: "answering (example_store [])"
  by (simp add: answering_def example_store_def)

lemma example_unique_ids: "unique_ids (example_store [])"
  by (simp add: unique_ids_def example_store_def doc_a_def doc_b_def doc_c_def doc_id_def)

lemma crafted_first_undo:
  "exit_code (undo_script (example_config False) (Some ''2024-01-02T03_04_05_678Z'') None
       crafted_files (example_store [])) = 0
   \<and> colls (store_after (undo_script (example_config False) (Some ''2024-01-02T03_04_05_678Z'')
       None crafted_files (example_store []))) ''z''
     = [[(''_id'', BOid ''cccccccccccccccccccccccc''), (''status'', BStr ''first'')]]"
  by code_simp

text \<open>
  The journal written by hand, undone twice on the example store: the first run deletes
  two documents and restores the third, the second run finds the same collection.
\<close>

theorem second_undo_witness:
  "exit_code (undo_script (example_config False) (Some ''2024-01-02T03_04_05_678Z'') None
       crafted_files (example_store [])) = 0
   \<and> answering (example_store []) \<and> unique_ids (example_store [])
   \<and> colls (store_after (undo_script (example_config False) (Some ''2024-01-02T03_04_05_678Z'')
       None crafted_files
       (store_after (undo_script (example_config False) (Some ''2024-01-02T03_04_05_678Z'')
          None crafted_files (example_store []))))) ''z''
     = [[(''_id'', BOid ''cccccccccccccccccccccccc''), (''status'', BStr ''first'')]]"
  using second_undo_changes_nothing
    [where cfg = "example_config False" and TAG_UNDO = "Some ''2024-01-02T03_04_05_678Z''"
       and FILTER_ID = None and fs = crafted_files and s = "example_store []"]
    crafted_first_undo example_answering example_unique_ids
  by simp

text \<open>
  C3, as it is worded (a second undo after a completed first one changes nothing), fails
  when a write of the first run is not answered: the failure is caught, the run goes on
  to its end with exit code 0 and the document is still there; the second run deletes it.
\<close>

theorem second_undo_finishes_what_the_first_missed:
  "exit_code (undo_script (example_config False) (Some ''2024-01-02T03_04_05_678Z'') None
       crafted_files (example_store [True])) = 0
   \<and> colls (store_after (undo_script (example_config False) (Some ''2024-01-02T03_04_05_678Z'')
       None crafted_files (example_store [True]))) ''z''
     = [doc_a, [(''_id'', BOid ''cccccccccccccccccccccccc''), (''status'', BStr ''first'')]]
   \<and> exit_code (undo_script (example_config False) (Some ''2024-01-02T03_04_05_678Z'') None
       crafted_files
       (store_after (undo_script (example_config False) (Some ''2024-01-02T03_04_05_678Z'')
          None crafted_files (example_store [True])))) = 0
   \<and> colls (store_after (undo_script (example_config False) (Some ''2024-01-02T03_04_05_678Z'')
       None crafted_files
       (store_after (undo_script (example_config False) (Some ''2024-01-02T03_04_05_678Z'')
          None crafted_files (example_store [True]))))) ''z''
     = [[(''_id'', BOid ''cccccccccccccccccccccccc''), (''status'', BStr ''first'')]]"
  by code_simp

subsection \<open>Undo of an update that the migration recorded\<close>

lemma map_of_map_prod: "map_of (map (map_prod id f) d) k = map_option f (map_of d k)"
  by (induction d) auto

lemma of_json_not_oid: "of_json j \<noteq> BOid h"
  by (cases j) simp_all

lemma replaceOne_refused:
  assumes "\<forall>d0. p d0 \<longrightarrow> map_of kvs ''_id'' \<noteq> None \<and> map_of kvs ''_id'' \<noteq> doc_id d0"
  shows "colls (snd (replaceOne c p (BObj kvs) s)) = colls s"
proof -
  obtain f s1 where f: "next_fault s = (f, s1)" by (cases "next_fault s")
  then have c1: "colls s1 = colls s" using next_fault_colls [of s] by simp
  show ?thesis
  proof (cases "List.find p (colls s1 c)")
    case None
    then show ?thesis using f c1 by (simp add: replaceOne_def)
  next
    case (Some d0)
    then have "p d0" by (rule find_Some_D)
    then have "map_of kvs ''_id'' \<noteq> None \<and> map_of kvs ''_id'' \<noteq> doc_id d0"
      using assms by blast
    then show ?thesis using f c1 Some by (simp add: replaceOne_def)
  qed
qed

text \<open>
  The entry that \<open>updateDocuments\<close> writes for a successful update of document \<open>d\<close>, read
  back from the file, never changes the store when it is replayed: the \<open>_id\<close> inside
  \<open>previous\<close> has become a string, so wherever the filter finds the document the store
  refuses the replacement.
\<close>

lemma journaled_update_never_restored:
  "colls (fst (undo_action
      (stringify_entry
         \<lparr>collection = c, action = ''update'', status = ''success'', a_id = doc_id d,
          document = None, previous = Some (BObj d), update = Some u, error = None\<rparr>)
      (s, lg))) = colls s"
proof -
  define e where "e = stringify_entry
         \<lparr>collection = c, action = ''update'', status = ''success'', a_id = doc_id d,
          document = None, previous = Some (BObj d), update = Some u, error = None\<rparr>"
  define kvs where "kvs = map (map_prod id of_json) (map (map_prod id toJSON) d)"
  have e: "collection e = c" "action e = ''update''" "status e = ''success''"
      "a_id e = map_option toJSON (doc_id d)"
      "previous e = Some (JObj (map (map_prod id toJSON) d))"
    by (simp_all add: e_def stringify_entry_def)
  have pv: "of_json (the (previous e)) = BObj kvs" "truthy (previous e)"
    by (simp_all add: e kvs_def)
  have kid: "map_of kvs ''_id'' = map_option of_json (map_option toJSON (doc_id d))"
    unfolding kvs_def doc_id_def map_of_map_prod ..
  have refuse: "\<forall>d0. by_oid (ObjectId (a_id e)) d0
                  \<longrightarrow> map_of kvs ''_id'' \<noteq> None \<and> map_of kvs ''_id'' \<noteq> doc_id d0"
  proof (intro allI impI)
    fix d0 assume b: "by_oid (ObjectId (a_id e)) d0"
    then obtain h where h: "ObjectId (a_id e) = Hex h" "doc_id d0 = Some (BOid h)"
      by (cases "ObjectId (a_id e)") auto
    then have "a_id e \<noteq> None"
      by (cases "a_id e") (simp_all add: ObjectId_def)
    then obtain v where "doc_id d = Some v"
      using e(4) by auto
    then have "map_of kvs ''_id'' = Some (of_json (toJSON v))"
      using kid by simp
    then show "map_of kvs ''_id'' \<noteq> None \<and> map_of kvs ''_id'' \<noteq> doc_id d0"
      using h(2) of_json_not_oid by simp
  qed
  have r: "colls (snd (replaceOne c (by_oid (ObjectId (a_id e))) (BObj kvs) s)) = colls s"
    using replaceOne_refused [OF refuse] .
  obtain x s' where x: "replaceOne c (by_oid (ObjectId (a_id e))) (BObj kvs) s = (x, s')"
    by (cases "replaceOne c (by_oid (ObjectId (a_id e))) (BObj kvs) s")
  have u: "colls (fst (snd (undo_update e (s, lg)))) = colls s"
    using e pv x r
    by (cases "ObjectId (a_id e)"; cases x) (simp_all add: undo_update_def)
  have i: "undo_insert e (s, lg) = (None, s, lg)"
    using undo_insert_skip [of e "(s, lg)"] e by simp
  obtain e2 s2 lg2 where 2: "undo_update e (s, lg) = (e2, s2, lg2)"
    by (cases "undo_update e (s, lg)")
  have "colls (fst (undo_action e (s, lg))) = colls s"
    using i 2 u by (cases e2) (simp_all add: undo_action_def)
  then show ?thesis by (simp add: e_def)
qed

lemma after_update_store:
  "colls (db after_update) ''z''
     = [[(''_id'', BOid ''aaaaaaaaaaaaaaaaaaaaaaaa''), (''status'', BStr ''new''),
         (''name'', BStr ''A''), (''updatedAt'', BDate ''2024-01-02T03:04:05.678Z'')],
        [(''_id'', BOid ''bbbbbbbbbbbbbbbbbbbbbbbb''), (''status'', BStr ''new''),
         (''updatedAt'', BDate ''2024-01-02T03:04:05.678Z'')],
        doc_c]"
  by code_simp

lemma after_update_journal:
  "map_option (\<lambda>l. map (\<lambda>e. (action e, status e, a_id e, previous e)) (actions l))
     (files after_update ''migrations/migration_2024-01-02T03_04_05_678Z.json'')
   = Some [(''update'', ''success'', Some (JStr ''aaaaaaaaaaaaaaaaaaaaaaaa''),
            Some (JObj [(''_id'', JStr ''aaaaaaaaaaaaaaaaaaaaaaaa''), (''status'', JStr ''old''),
                        (''name'', JStr ''A'')])),
           (''update'', ''success'', Some (JStr ''bbbbbbbbbbbbbbbbbbbbbbbb''),
            Some (JObj [(''_id'', JStr ''bbbbbbbbbbbbbbbbbbbbbbbb''), (''status'', JStr ''old'')]))]"
  by code_simp

lemma after_update_undo:
  "colls (store_after (undo_script (example_config False) (Some ''2024-01-02T03_04_05_678Z'') None
       (files after_update) (db after_update))) ''z''
     = [[(''_id'', BOid ''aaaaaaaaaaaaaaaaaaaaaaaa''), (''status'', BStr ''new''),
         (''name'', BStr ''A''), (''updatedAt'', BDate ''2024-01-02T03:04:05.678Z'')],
        [(''_id'', BOid ''bbbbbbbbbbbbbbbbbbbbbbbb''), (''status'', BStr ''new''),
         (''updatedAt'', BDate ''2024-01-02T03:04:05.678Z'')],
        doc_c]"
  by code_simp

lemma after_update_undo_exit:
  "exit_code (undo_script (example_config False) (Some ''2024-01-02T03_04_05_678Z'') None
       (files after_update) (db after_update)) = 0"
  by code_simp

text \<open>
  C2. The claim: undo overwrites the document of every successful update with exactly the
  recorded previous content. On the example store the migration updates two documents
  and records both updates as successful, each with the previous content; in the file
  the \<open>_id\<close> of that content is the string of hexadecimal digits. The undo script then
  runs to its end with exit code 0, and the two documents are what the update made of
  them: status \<open>new\<close>, with \<open>updatedAt\<close>. Nothing has been restored.
\<close>

theorem undo_leaves_updated_documents:
  "colls (example_store []) ''z'' = [doc_a, doc_b, doc_c]
   \<and> colls (db after_update) ''z''
       = [[(''_id'', BOid ''aaaaaaaaaaaaaaaaaaaaaaaa''), (''status'', BStr ''new''),
           (''name'', BStr ''A''), (''updatedAt'', BDate ''2024-01-02T03:04:05.678Z'')],
          [(''_id'', BOid ''bbbbbbbbbbbbbbbbbbbbbbbb''), (''status'', BStr ''new''),
           (''updatedAt'', BDate ''2024-01-02T03:04:05.678Z'')],
          doc_c]
   \<and> map_option (\<lambda>l. map (\<lambda>e. (action e, status e, a_id e, previous e)) (actions l))
         (files after_update ''migrations/migration_2024-01-02T03_04_05_678Z.json'')
       = Some [(''update'', ''success'', Some (JStr ''aaaaaaaaaaaaaaaaaaaaaaaa''),
                Some (JObj [(''_id'', JStr ''aaaaaaaaaaaaaaaaaaaaaaaa''),
                            (''status'', JStr ''old''), (''name'', JStr ''A'')])),
               (''update'', ''success'', Some (JStr ''bbbbbbbbbbbbbbbbbbbbbbbb''),
                Some (JObj [(''_id'', JStr ''bbbbbbbbbbbbbbbbbbbbbbbb''),
                            (''status'', JStr ''old'')]))]
   \<and> exit_code (undo_script (example_config False) (Some ''2024-01-02T03_04_05_678Z'') None
         (files after_update) (db after_update)) = 0
   \<and> colls (store_after (undo_script (example_config False) (Some ''2024-01-02T03_04_05_678Z'')
         None (files after_update) (db after_update))) ''z''
       = [[(''_id'', BOid ''aaaaaaaaaaaaaaaaaaaaaaaa''), (''status'', BStr ''new''),
           (''name'', BStr ''A''), (''updatedAt'', BDate ''2024-01-02T03:04:05.678Z'')],
          [(''_id'', BOid ''bbbbbbbbbbbbbbbbbbbbbbbb''), (''status'', BStr ''new''),
           (''updatedAt'', BDate ''2024-01-02T03:04:05.678Z'')],
          doc_c]"
  using after_update_store after_update_journal after_update_undo after_update_undo_exit
  by (simp add: example_store_def)

end
